theory Spec2Isabelle
  imports Main
begin

section \<open>JavaScript strings\<close>

text \<open>
  A JavaScript string is a sequence of UTF-16 code units. A code unit is modelled as a
  natural number (the values below 65536 are the code units proper), a string as a list
  of them. \<open>js\<close> turns an Isabelle literal into such a string.
\<close>

type_synonym jschar = nat
type_synonym jsstring = "jschar list"

abbreviation js :: "string \<Rightarrow> jsstring" where
  "js s \<equiv> map of_char s"

abbreviation QUOTE :: jschar where "QUOTE \<equiv> 34"
abbreviation BACKSLASH :: jschar where "BACKSLASH \<equiv> 92"
abbreviation LBRACE :: jschar where "LBRACE \<equiv> 123"
abbreviation RBRACE :: jschar where "RBRACE \<equiv> 125"
abbreviation LBRACK :: jschar where "LBRACK \<equiv> 91"
abbreviation RBRACK :: jschar where "RBRACK \<equiv> 93"
abbreviation COMMA :: jschar where "COMMA \<equiv> 44"
abbreviation LT :: jschar where "LT \<equiv> 60"
abbreviation GT :: jschar where "GT \<equiv> 62"
abbreviation SLASH :: jschar where "SLASH \<equiv> 47"
abbreviation BACKTICK :: jschar where "BACKTICK \<equiv> 96"

text \<open>
  The class \<open>\s\<close> of regular expressions, which is also what \<open>trim\<close>, \<open>trimStart\<close> and
  \<open>trimEnd\<close> strip: the ECMAScript WhiteSpace and LineTerminator code points.
\<close>

definition is_space :: "jschar \<Rightarrow> bool" where
  "is_space c \<longleftrightarrow>
     (9 \<le> c \<and> c \<le> 13) \<or> c = 32 \<or> c = 160 \<or> c = 5760 \<or> (8192 \<le> c \<and> c \<le> 8202) \<or>
     c = 8232 \<or> c = 8233 \<or> c = 8239 \<or> c = 8287 \<or> c = 12288 \<or> c = 65279"

definition trimStart :: "jsstring \<Rightarrow> jsstring" where
  "trimStart s = dropWhile is_space s"

definition trimEnd :: "jsstring \<Rightarrow> jsstring" where
  "trimEnd s = rev (dropWhile is_space (rev s))"

definition trim :: "jsstring \<Rightarrow> jsstring" where
  "trim s = trimEnd (trimStart s)"

text \<open>
  The two global replacements that open both repair functions and \<open>cleanBOM\<close>: the first
  deletes every byte-order mark U+FEFF, the second every code unit of the class
  U+200B to U+200D or U+2060 (the zero-width characters).
\<close>

definition remove_bom :: "jsstring \<Rightarrow> jsstring" where
  "remove_bom s = filter (\<lambda>c. c \<noteq> 65279) s"

definition remove_zero_width :: "jsstring \<Rightarrow> jsstring" where
  "remove_zero_width s = filter (\<lambda>c. \<not> ((8203 \<le> c \<and> c \<le> 8205) \<or> c = 8288)) s"

section \<open>The pipeline engine\<close>

text \<open>
  A step is a function from text to text that may throw; a thrown exception is the
  left summand. \<open>reduce\<close> is \<open>Array.prototype.reduce\<close> with an initial value and a
  callback that may throw: an exception of the callback leaves the reduction.
  \<open>try_catch\<close> is the \<open>try { ... } catch (error) { ... }\<close> statement.
\<close>

type_synonym 'e step = "jsstring \<Rightarrow> 'e + jsstring"

fun reduce :: "('a \<Rightarrow> 'b \<Rightarrow> 'e + 'a) \<Rightarrow> 'b list \<Rightarrow> 'a \<Rightarrow> 'e + 'a" where
  "reduce f [] acc = Inr acc"
| "reduce f (x # xs) acc = (case f acc x of Inl e \<Rightarrow> Inl e | Inr acc' \<Rightarrow> reduce f xs acc')"

definition try_catch :: "'e + 'a \<Rightarrow> ('e \<Rightarrow> 'e + 'a) \<Rightarrow> 'e + 'a" where
  "try_catch body handler = (case body of Inl e \<Rightarrow> handler e | Inr v \<Rightarrow> Inr v)"

text \<open>
  \<open>CodeProcessor.process\<close>: the handler logs the error (no effect on the result) and
  returns the value the step was given.
\<close>

definition process :: "'e step list \<Rightarrow> jsstring \<Rightarrow> 'e + jsstring" where
  "process steps code =
     reduce (\<lambda>result step. try_catch (step result) (\<lambda>error. Inr result)) steps code"

section \<open>The JSON repair\<close>

text \<open>
  \<open>stripTrailingCommas\<close> is \<open>text.replace(/,(\s*[}\]])/g, '$1')\<close>: a comma is deleted when
  the first character after it that is not white space is a closing delimiter. The white
  space and the delimiter are put back by the replacement and hold no comma, so the search
  may go on right after the deleted comma.
\<close>

definition closer_follows :: "jsstring \<Rightarrow> bool" where
  "closer_follows cs =
     (case dropWhile is_space cs of [] \<Rightarrow> False | d # rest \<Rightarrow> d = RBRACE \<or> d = RBRACK)"

fun stripTrailingCommas :: "jsstring \<Rightarrow> jsstring" where
  "stripTrailingCommas [] = []"
| "stripTrailingCommas (c # cs) =
     (if c = COMMA \<and> closer_follows cs then stripTrailingCommas cs
      else c # stripTrailingCommas cs)"

text \<open>
  \<open>addMissingCommas\<close> is \<open>text.replace(/}\s*({|\[)/g, '},$1').replace(/]\s*({|\[)/g, '],$1')\<close>.
  One replacement, for the closing delimiter \<open>cl\<close>: where \<open>cl\<close> is followed by white space and
  an opening delimiter, the match is replaced by \<open>cl\<close>, a comma and that delimiter (the white
  space between them is not kept), and the search goes on after the match.
\<close>

function insert_comma_after :: "jschar \<Rightarrow> jsstring \<Rightarrow> jsstring" where
  "insert_comma_after cl [] = []"
| "insert_comma_after cl (c # cs) =
     (case dropWhile is_space cs of
        [] \<Rightarrow> c # insert_comma_after cl cs
      | d # rest \<Rightarrow>
          if c = cl \<and> (d = LBRACE \<or> d = LBRACK)
          then cl # COMMA # d # insert_comma_after cl rest
          else c # insert_comma_after cl cs)"
  by pat_completeness auto
termination
proof (relation "measure (\<lambda>(cl, cs). length cs)")
  fix cl c :: jschar and cs rest :: jsstring and d :: jschar
  assume "dropWhile is_space cs = d # rest"
  then have "length (d # rest) \<le> length cs"
    by (metis length_dropWhile_le)
  then show "((cl, rest), (cl, c # cs)) \<in> measure (\<lambda>(cl, cs). length cs)"
    by simp
qed auto

definition addMissingCommas :: "jsstring \<Rightarrow> jsstring" where
  "addMissingCommas text = insert_comma_after RBRACK (insert_comma_after RBRACE text)"

text \<open>
  The variables of the scan of \<open>fixJSONStructure\<close>. The head of \<open>stack\<close> is the top of the
  JavaScript array used as a stack (its last element); the empty string that
  \<open>lastNonWhitespaceChar\<close> starts with is \<open>None\<close>.
\<close>

record scan =
  stack :: "jschar list"
  inString :: bool
  escaped :: bool
  result :: jsstring
  lastNonWhitespaceChar :: "jschar option"

definition scan_init :: scan where
  "scan_init = \<lparr>stack = [], inString = False, escaped = False, result = [],
                 lastNonWhitespaceChar = None\<rparr>"

definition closing_of :: "jschar \<Rightarrow> jschar" where
  "closing_of unclosed = (if unclosed = LBRACE then RBRACE else RBRACK)"

text \<open>
  The inner loop \<open>while (stack.length > 0 && stack[stack.length - 1] !== need)\<close>: it pops
  every opener that is not the needed one and appends its closer.
\<close>

function close_unmatched :: "jschar \<Rightarrow> scan \<Rightarrow> scan" where
  "close_unmatched need s =
     (case stack s of
        [] \<Rightarrow> s
      | unclosed # below \<Rightarrow>
          if unclosed \<noteq> need
          then close_unmatched need
                 (s\<lparr>stack := below, result := result s @ [closing_of unclosed],
                    lastNonWhitespaceChar := Some (closing_of unclosed)\<rparr>)
          else s)"
  by pat_completeness auto
termination
  by (relation "measure (\<lambda>(need, s). length (stack s))") auto

text \<open>The opener that a closing delimiter needs: \<open>ch === '}' ? '{' : '['\<close>.\<close>

definition opening_of :: "jschar \<Rightarrow> jschar" where
  "opening_of ch = (if ch = RBRACE then LBRACE else LBRACK)"

text \<open>One turn of the loop \<open>for (let i = 0; i < text.length; i++)\<close>, on the character \<open>ch\<close>.\<close>

definition scan_step :: "scan \<Rightarrow> jschar \<Rightarrow> scan" where
  "scan_step s ch =
     (if inString s then
        (let s1 = s\<lparr>result := result s @ [ch]\<rparr> in
         if escaped s1 then s1\<lparr>escaped := False\<rparr>
         else if ch = BACKSLASH then s1\<lparr>escaped := True\<rparr>
         else if ch = QUOTE then s1\<lparr>inString := False\<rparr>
         else s1)
      else if ch = QUOTE then
        s\<lparr>inString := True, escaped := False, result := result s @ [ch]\<rparr>
      else if ch = LBRACE \<or> ch = LBRACK then
        s\<lparr>stack := ch # stack s, result := result s @ [ch], lastNonWhitespaceChar := Some ch\<rparr>
      else if ch = RBRACE \<or> ch = RBRACK then
        (let need = opening_of ch;
             s1 = close_unmatched need s;
             s2 = (if stack s1 \<noteq> [] \<and> hd (stack s1) = need
                   then s1\<lparr>stack := tl (stack s1)\<rparr> else s1)
         in s2\<lparr>result := result s2 @ [ch], lastNonWhitespaceChar := Some ch\<rparr>)
      else
        (let s1 = s\<lparr>result := result s @ [ch]\<rparr> in
         if \<not> is_space ch then s1\<lparr>lastNonWhitespaceChar := Some ch\<rparr> else s1))"

text \<open>The last loop, \<open>while (stack.length > 0)\<close>: the closers of what is still open, innermost first.\<close>

fun close_remaining :: "jschar list \<Rightarrow> jsstring \<Rightarrow> jsstring" where
  "close_remaining [] res = res"
| "close_remaining (unclosed # below) res = close_remaining below (res @ [closing_of unclosed])"

definition scan_text :: "jsstring \<Rightarrow> jsstring" where
  "scan_text input = addMissingCommas (remove_zero_width (remove_bom input))"

definition fixJSONStructure :: "jsstring \<Rightarrow> jsstring" where
  "fixJSONStructure input =
     (let s = foldl scan_step scan_init (scan_text input);
          s1 = (if inString s
                then s\<lparr>result := result s @ [QUOTE], lastNonWhitespaceChar := Some QUOTE\<rparr>
                else s);
          res = (if lastNonWhitespaceChar s1 = Some COMMA
                 then (let r = trimEnd (result s1) in
                       if r \<noteq> [] \<and> last r = COMMA then butlast r else r)
                 else result s1)
      in stripTrailingCommas (close_remaining (stack s1) res))"

text \<open>
  \<open>fixJSON\<close>. \<open>JSON.parse\<close> belongs to the language, not to the repository: it is the
  parameter \<open>parse\<close>, which gives \<open>None\<close> where \<open>JSON.parse\<close> throws. Only whether it throws
  matters here.
\<close>

definition fixJSON :: "(jsstring \<Rightarrow> 'j option) \<Rightarrow> jsstring \<Rightarrow> jsstring" where
  "fixJSON parse input =
     (let raw = trim input in
      if raw = [] then raw
      else if parse raw \<noteq> None then raw
      else (let fixed = fixJSONStructure raw in
            if parse fixed \<noteq> None then fixed
            else stripTrailingCommas fixed))"

section \<open>A reference model of the built-in JSON functions\<close>

text \<open>
  The theorems about the repository's functions take \<open>JSON.parse\<close> and \<open>JSON.stringify\<close> as
  parameters and hold for every choice of them. The concrete examples need one: the
  grammar of ECMA-404 as \<open>JSON.parse\<close> reads it, and the layout of
  \<open>JSON.stringify(value, null, 2)\<close>. A number is kept as the text that denotes it, an object
  as the list of its members in the order of the text (the examples use integers and
  distinct keys, where this is what JavaScript prints). The number \<open>fuel\<close> bounds the
  nesting; twice the length of the text is more than a text can use.
\<close>

datatype json =
  JNull | JBool bool | JNum jsstring | JStr jsstring | JArr "json list"
  | JObj "(jsstring \<times> json) list"

definition is_digit :: "jschar \<Rightarrow> bool" where
  "is_digit c \<longleftrightarrow> 48 \<le> c \<and> c \<le> 57"

definition json_ws :: "jschar \<Rightarrow> bool" where
  "json_ws c \<longleftrightarrow> c = 32 \<or> c = 9 \<or> c = 10 \<or> c = 13"

definition hex_value :: "jschar \<Rightarrow> nat option" where
  "hex_value c =
     (if 48 \<le> c \<and> c \<le> 57 then Some (c - 48)
      else if 65 \<le> c \<and> c \<le> 70 then Some (c - 55)
      else if 97 \<le> c \<and> c \<le> 102 then Some (c - 87)
      else None)"

definition unescape :: "jschar \<Rightarrow> jschar option" where
  "unescape e =
     (if e = QUOTE \<or> e = BACKSLASH \<or> e = SLASH then Some e
      else if e = 98 then Some 8 else if e = 102 then Some 12 else if e = 110 then Some 10
      else if e = 114 then Some 13 else if e = 116 then Some 9 else None)"

definition strip_prefix :: "jsstring \<Rightarrow> jsstring \<Rightarrow> jsstring option" where
  "strip_prefix p cs = (if take (length p) cs = p then Some (drop (length p) cs) else None)"

text \<open>The characters of a string literal after its opening quote, decoded, and what follows it.\<close>

fun parse_chars :: "jsstring \<Rightarrow> (jsstring \<times> jsstring) option" where
  "parse_chars [] = None"
| "parse_chars (c # cs) =
     (if c = QUOTE then Some ([], cs)
      else if c = BACKSLASH then
        (case cs of
           [] \<Rightarrow> None
         | e # cs1 \<Rightarrow>
             if e = 117 then
               (case cs1 of
                  h1 # h2 # h3 # h4 # cs2 \<Rightarrow>
                    (case (hex_value h1, hex_value h2, hex_value h3, hex_value h4) of
                       (Some a, Some b, Some c, Some d) \<Rightarrow>
                         map_option (\<lambda>(s, r). ((((a * 16 + b) * 16 + c) * 16 + d) # s, r))
                           (parse_chars cs2)
                     | _ \<Rightarrow> None)
                | _ \<Rightarrow> None)
             else
               (case unescape e of
                  None \<Rightarrow> None
                | Some u \<Rightarrow> map_option (\<lambda>(s, r). (u # s, r)) (parse_chars cs1)))
      else if c < 32 then None
      else map_option (\<lambda>(s, r). (c # s, r)) (parse_chars cs))"

text \<open>The text of a number, \<open>-? (0 | [1-9][0-9]*) (. [0-9]+)? ([eE] [+-]? [0-9]+)?\<close>, and what follows it.\<close>

definition parse_exponent :: "jsstring \<Rightarrow> (jsstring \<times> jsstring) option" where
  "parse_exponent cs =
     (case cs of
        [] \<Rightarrow> Some ([], cs)
      | e # r \<Rightarrow>
          if e = 69 \<or> e = 101 then
            (let sg = (case r of [] \<Rightarrow> [] | x # r1 \<Rightarrow> if x = 43 \<or> x = 45 then [x] else []);
                 r2 = drop (length sg) r;
                 ds = takeWhile is_digit r2
             in if ds = [] then None else Some (e # sg @ ds, dropWhile is_digit r2))
          else Some ([], cs))"

definition parse_fraction :: "jsstring \<Rightarrow> (jsstring \<times> jsstring) option" where
  "parse_fraction cs =
     (case cs of
        [] \<Rightarrow> Some ([], cs)
      | p # r \<Rightarrow>
          if p = 46 then
            (let ds = takeWhile is_digit r
             in if ds = [] then None else Some (p # ds, dropWhile is_digit r))
          else Some ([], cs))"

definition parse_number :: "jsstring \<Rightarrow> (jsstring \<times> jsstring) option" where
  "parse_number cs =
     (let sg = (case cs of [] \<Rightarrow> [] | x # r \<Rightarrow> if x = 45 then [x] else []);
          r0 = drop (length sg) cs
      in case r0 of
           [] \<Rightarrow> None
         | d # r1 \<Rightarrow>
             if \<not> is_digit d then None
             else
               (let ip = (if d = 48 then [d] else d # takeWhile is_digit r1);
                    r2 = (if d = 48 then r1 else dropWhile is_digit r1)
                in case parse_fraction r2 of
                     None \<Rightarrow> None
                   | Some (fr, r3) \<Rightarrow>
                       (case parse_exponent r3 of
                          None \<Rightarrow> None
                        | Some (ex, r4) \<Rightarrow> Some (sg @ ip @ fr @ ex, r4))))"

fun parse_value :: "nat \<Rightarrow> jsstring \<Rightarrow> (json \<times> jsstring) option"
  and parse_elements :: "nat \<Rightarrow> jsstring \<Rightarrow> (json list \<times> jsstring) option"
  and parse_members :: "nat \<Rightarrow> jsstring \<Rightarrow> ((jsstring \<times> json) list \<times> jsstring) option"
where
  "parse_value 0 cs = None"
| "parse_value (Suc fuel) [] = None"
| "parse_value (Suc fuel) (c # r) =
     (if c = LBRACE then
        (case dropWhile json_ws r of
           [] \<Rightarrow> None
         | d # r1 \<Rightarrow>
             if d = RBRACE then Some (JObj [], r1)
             else map_option (\<lambda>(kvs, r2). (JObj kvs, r2)) (parse_members fuel (d # r1)))
      else if c = LBRACK then
        (case dropWhile json_ws r of
           [] \<Rightarrow> None
         | d # r1 \<Rightarrow>
             if d = RBRACK then Some (JArr [], r1)
             else map_option (\<lambda>(vs, r2). (JArr vs, r2)) (parse_elements fuel (d # r1)))
      else if c = QUOTE then map_option (\<lambda>(s, r1). (JStr s, r1)) (parse_chars r)
      else if c = 116 then map_option (\<lambda>r1. (JBool True, r1)) (strip_prefix (js ''rue'') r)
      else if c = 102 then map_option (\<lambda>r1. (JBool False, r1)) (strip_prefix (js ''alse'') r)
      else if c = 110 then map_option (\<lambda>r1. (JNull, r1)) (strip_prefix (js ''ull'') r)
      else map_option (\<lambda>(lexeme, r1). (JNum lexeme, r1)) (parse_number (c # r)))"
| "parse_elements 0 cs = None"
| "parse_elements (Suc fuel) cs =
     (case parse_value fuel cs of
        None \<Rightarrow> None
      | Some (v, r) \<Rightarrow>
          (case dropWhile json_ws r of
             [] \<Rightarrow> None
           | d # r1 \<Rightarrow>
               if d = RBRACK then Some ([v], r1)
               else if d = COMMA then
                 map_option (\<lambda>(vs, r2). (v # vs, r2))
                   (parse_elements fuel (dropWhile json_ws r1))
               else None))"
| "parse_members 0 cs = None"
| "parse_members (Suc fuel) [] = None"
| "parse_members (Suc fuel) (q # r) =
     (if q \<noteq> QUOTE then None
      else
        (case parse_chars r of
           None \<Rightarrow> None
         | Some (k, r1) \<Rightarrow>
             (case dropWhile json_ws r1 of
                [] \<Rightarrow> None
              | colon # r2 \<Rightarrow>
                  if colon \<noteq> 58 then None
                  else
                    (case parse_value fuel (dropWhile json_ws r2) of
                       None \<Rightarrow> None
                     | Some (v, r3) \<Rightarrow>
                         (case dropWhile json_ws r3 of
                            [] \<Rightarrow> None
                          | d # r4 \<Rightarrow>
                              if d = RBRACE then Some ([(k, v)], r4)
                              else if d = COMMA then
                                map_option (\<lambda>(kvs, r5). ((k, v) # kvs, r5))
                                  (parse_members fuel (dropWhile json_ws r4))
                              else None)))))"

definition JSON_parse :: "jsstring \<Rightarrow> json option" where
  "JSON_parse text =
     (case parse_value (Suc (length text + length text)) (dropWhile json_ws text) of
        None \<Rightarrow> None
      | Some (v, r) \<Rightarrow> if dropWhile json_ws r = [] then Some v else None)"

text \<open>\<open>JSON.stringify(value, null, 2)\<close>: the quoting of a string, then the layout.\<close>

definition hex_digit :: "nat \<Rightarrow> jschar" where
  "hex_digit n = (if n < 10 then 48 + n else 87 + n)"

definition unicode_escape :: "jschar \<Rightarrow> jsstring" where
  "unicode_escape c =
     [BACKSLASH, 117, hex_digit (c div 4096 mod 16), hex_digit (c div 256 mod 16),
      hex_digit (c div 16 mod 16), hex_digit (c mod 16)]"

fun quote_chars :: "jsstring \<Rightarrow> jsstring" where
  "quote_chars [] = []"
| "quote_chars (c # cs) =
     (if c = 8 then BACKSLASH # 98 # quote_chars cs
      else if c = 9 then BACKSLASH # 116 # quote_chars cs
      else if c = 10 then BACKSLASH # 110 # quote_chars cs
      else if c = 12 then BACKSLASH # 102 # quote_chars cs
      else if c = 13 then BACKSLASH # 114 # quote_chars cs
      else if c = QUOTE \<or> c = BACKSLASH then BACKSLASH # c # quote_chars cs
      else if c < 32 then unicode_escape c @ quote_chars cs
      else if 55296 \<le> c \<and> c \<le> 56319 then
        (case cs of
           [] \<Rightarrow> unicode_escape c
         | d # ds \<Rightarrow>
             if 56320 \<le> d \<and> d \<le> 57343 then c # d # quote_chars ds
             else unicode_escape c @ quote_chars cs)
      else if 56320 \<le> c \<and> c \<le> 57343 then unicode_escape c @ quote_chars cs
      else c # quote_chars cs)"

definition quote :: "jsstring \<Rightarrow> jsstring" where
  "quote s = QUOTE # quote_chars s @ [QUOTE]"

fun join :: "jsstring \<Rightarrow> jsstring list \<Rightarrow> jsstring" where
  "join sep [] = []"
| "join sep [x] = x"
| "join sep (x # y # ys) = x @ sep @ join sep (y # ys)"

fun stringify_at :: "nat \<Rightarrow> json \<Rightarrow> jsstring" where
  "stringify_at ind JNull = js ''null''"
| "stringify_at ind (JBool b) = (if b then js ''true'' else js ''false'')"
| "stringify_at ind (JNum lexeme) = lexeme"
| "stringify_at ind (JStr s) = quote s"
| "stringify_at ind (JArr vs) =
     (if vs = [] then [LBRACK, RBRACK]
      else [LBRACK, 10]
        @ join [COMMA, 10] (map (\<lambda>v. replicate (ind + 2) 32 @ stringify_at (ind + 2) v) vs)
        @ [10] @ replicate ind 32 @ [RBRACK])"
| "stringify_at ind (JObj kvs) =
     (if kvs = [] then [LBRACE, RBRACE]
      else [LBRACE, 10]
        @ join [COMMA, 10]
            (map (\<lambda>kv. replicate (ind + 2) 32 @ quote (fst kv) @ [58, 32]
                        @ stringify_at (ind + 2) (snd kv)) kvs)
        @ [10] @ replicate ind 32 @ [RBRACE])"

definition JSON_stringify2 :: "json \<Rightarrow> jsstring" where
  "JSON_stringify2 v = stringify_at 0 v"

section \<open>String-literal spans of a text\<close>

text \<open>
  The flag pair (inside a string, escape pending) that both scans of the repository keep,
  as a function of the text read so far. \<open>outside_chars st text\<close> are the characters of
  \<open>text\<close> that lie outside string literals when reading starts in the state \<open>st\<close>, and
  \<open>count_outside c text\<close> is how often \<open>c\<close> occurs outside the string literals of \<open>text\<close>.
\<close>

definition string_step :: "bool \<times> bool \<Rightarrow> jschar \<Rightarrow> bool \<times> bool" where
  "string_step st ch =
     (case st of (inStr, esc) \<Rightarrow>
        if inStr then
          (if esc then (True, False)
           else if ch = BACKSLASH then (True, True)
           else if ch = QUOTE then (False, False)
           else (True, False))
        else if ch = QUOTE then (True, False)
        else (False, esc))"

fun outside_chars :: "bool \<times> bool \<Rightarrow> jsstring \<Rightarrow> jsstring" where
  "outside_chars st [] = []"
| "outside_chars st (c # cs) =
     (if fst st then outside_chars (string_step st c) cs
      else c # outside_chars (string_step st c) cs)"

definition count_outside :: "jschar \<Rightarrow> jsstring \<Rightarrow> nat" where
  "count_outside c text = count_list (outside_chars (False, False) text) c"

text \<open>
  What the scan of \<open>fixJSONStructure\<close> meets on its way: \<open>unmatched_closers cl s text\<close> counts
  the closing delimiters \<open>cl\<close> that it reads outside a string while the stack holds no
  opener for them, when it reads \<open>text\<close> from the state \<open>s\<close>; \<open>ends_in_escape\<close> says that
  the scan of an input ends inside a string, right after a backslash that escapes nothing.
\<close>

fun unmatched_closers :: "jschar \<Rightarrow> scan \<Rightarrow> jsstring \<Rightarrow> nat" where
  "unmatched_closers cl s [] = 0"
| "unmatched_closers cl s (ch # cs) =
     (if \<not> inString s \<and> ch = cl \<and> opening_of cl \<notin> set (stack s) then 1 else 0)
       + unmatched_closers cl (scan_step s ch) cs"

definition ends_in_escape :: "jsstring \<Rightarrow> bool" where
  "ends_in_escape input =
     (let s = foldl scan_step scan_init (scan_text input) in inString s \<and> escaped s)"

text \<open>
  A character of a text lies inside a string literal when the text before it leaves a
  string open: it comes after a quote that opens a literal and not after the quote that
  closes it, and a character that follows a backslash inside the literal is escaped, so
  that an escaped quote closes nothing. The quote that closes the literal counts as
  inside, the one that opens it does not. This is said of the text alone, with the flag
  pair above, whatever the scan does.
\<close>

definition in_literal :: "jsstring \<Rightarrow> nat \<Rightarrow> bool" where
  "in_literal text i \<longleftrightarrow> i < length text \<and> fst (foldl string_step (False, False) (take i text))"

text \<open>
  Three facts about a state of the scan that the proofs below carry along it: the two flags
  are those of the text emitted so far, the stack holds openers only, and \<open>excess cl s\<close> is
  by how much the closers \<open>cl\<close> emitted outside strings, with those still owed to the
  stack, exceed the openers emitted.
\<close>

definition flags_agree :: "scan \<Rightarrow> bool" where
  "flags_agree s \<longleftrightarrow> foldl string_step (False, False) (result s) = (inString s, escaped s)"

definition openers_only :: "scan \<Rightarrow> bool" where
  "openers_only s \<longleftrightarrow> set (stack s) \<subseteq> {LBRACE, LBRACK}"

definition excess :: "jschar \<Rightarrow> scan \<Rightarrow> int" where
  "excess cl s =
     int (count_list (outside_chars (False, False) (result s)) cl)
       + int (count_list (stack s) (opening_of cl))
       - int (count_list (outside_chars (False, False) (result s)) (opening_of cl))"

section \<open>Extraction of the JSON block\<close>

text \<open>
  \<open>String.prototype.indexOf\<close> and \<open>lastIndexOf\<close> for a single character (\<open>-1\<close> when it does
  not occur), and \<open>String.prototype.slice\<close> with its clamping of both indices.
\<close>

definition indexOf :: "jsstring \<Rightarrow> jschar \<Rightarrow> int" where
  "indexOf s c = (if c \<in> set s then int (length (takeWhile (\<lambda>x. x \<noteq> c) s)) else - 1)"

definition lastIndexOf :: "jsstring \<Rightarrow> jschar \<Rightarrow> int" where
  "lastIndexOf s c =
     (if c \<in> set s then int (length s) - 1 - int (length (takeWhile (\<lambda>x. x \<noteq> c) (rev s)))
      else - 1)"

definition slice :: "jsstring \<Rightarrow> int \<Rightarrow> int \<Rightarrow> jsstring" where
  "slice s start fin =
     (let len = int (length s);
          from = (if start < 0 then max (len + start) 0 else min start len);
          to = (if fin < 0 then max (len + fin) 0 else min fin len)
      in take (nat (to - from)) (drop (nat from) s))"

definition extractJSON :: "jsstring \<Rightarrow> jsstring" where
  "extractJSON code =
     (if code = [] then code
      else
        (let objStart = indexOf code LBRACE;
             objEnd = lastIndexOf code RBRACE;
             arrStart = indexOf code LBRACK;
             arrEnd = lastIndexOf code RBRACK
         in if arrStart \<noteq> - 1 \<and> arrEnd \<noteq> - 1 \<and> (objStart = - 1 \<or> arrStart < objStart)
            then slice code arrStart (arrEnd + 1)
            else if objStart \<noteq> - 1 \<and> objEnd \<noteq> - 1 then slice code objStart (objEnd + 1)
            else code))"

text \<open>
  The loop of \<open>extractJSONArrayStrict\<close>. Its variables are the tuple
  \<open>(start, depth, inString, escaped)\<close>; \<open>strict_step\<close> is the body of the loop at the index
  \<open>i\<close>, which either returns from the function (\<open>Inl\<close>) or goes on with new values (\<open>Inr\<close>).
  \<open>depth\<close> is only decreased when it is positive, so it is a natural number.
\<close>

type_synonym strict_state = "int \<times> nat \<times> bool \<times> bool"

definition strict_step :: "jsstring \<Rightarrow> nat \<Rightarrow> strict_state \<Rightarrow> jsstring + strict_state" where
  "strict_step text i st =
     (case st of (start, depth, inStr, esc) \<Rightarrow>
        (let ch = text ! i in
         if inStr then
           (if esc then Inr (start, depth, inStr, False)
            else if ch = BACKSLASH then Inr (start, depth, inStr, True)
            else if ch = QUOTE then Inr (start, depth, False, esc)
            else Inr (start, depth, inStr, esc))
         else if ch = QUOTE then Inr (start, depth, True, False)
         else if ch = LBRACK then
           Inr (if start = - 1 then int i else start, depth + 1, inStr, esc)
         else if ch = RBRACK then
           (if depth > 0 then
              (if depth - 1 = 0 \<and> start \<noteq> - 1 then Inl (slice text start (int i + 1))
               else Inr (start, depth - 1, inStr, esc))
            else Inr (start, depth, inStr, esc))
         else Inr (start, depth, inStr, esc)))"

function strict_loop :: "jsstring \<Rightarrow> nat \<Rightarrow> strict_state \<Rightarrow> jsstring option" where
  "strict_loop text i st =
     (if i < length text then
        (case strict_step text i st of
           Inl found \<Rightarrow> Some found
         | Inr st' \<Rightarrow> strict_loop text (i + 1) st')
      else None)"
  by pat_completeness auto
termination
  by (relation "measure (\<lambda>(text, i, st). length text - i)") auto

definition extractJSONArrayStrict :: "jsstring \<Rightarrow> jsstring" where
  "extractJSONArrayStrict code =
     (if code = [] then code
      else
        (case strict_loop code 0 (- 1, 0, False, False) of
           Some found \<Rightarrow> found
         | None \<Rightarrow> extractJSON code))"

text \<open>
  The words of the specification for what the strict extraction finds. A position is
  outside the strings when the text before it leaves no string open; \<open>bracket_depth text a b\<close>
  is the number of \<open>[\<close> minus the number of \<open>]\<close> outside strings at the positions from \<open>a\<close> up
  to, not including, \<open>b\<close>. \<open>complete_array text start fin\<close>: \<open>start\<close> is the first \<open>[\<close> outside a
  string, and \<open>fin\<close> is the \<open>]\<close> outside a string that brings the depth, positive since
  \<open>start\<close>, back to zero.
\<close>

definition outside_at :: "jsstring \<Rightarrow> nat \<Rightarrow> bool" where
  "outside_at text i \<longleftrightarrow> \<not> fst (foldl string_step (False, False) (take i text))"

definition opens_at :: "jsstring \<Rightarrow> nat \<Rightarrow> bool" where
  "opens_at text k \<longleftrightarrow> text ! k = LBRACK \<and> outside_at text k"

definition closes_at :: "jsstring \<Rightarrow> nat \<Rightarrow> bool" where
  "closes_at text k \<longleftrightarrow> text ! k = RBRACK \<and> outside_at text k"

definition bracket_depth :: "jsstring \<Rightarrow> nat \<Rightarrow> nat \<Rightarrow> int" where
  "bracket_depth text a b =
     int (length (filter (opens_at text) [a..<b])) - int (length (filter (closes_at text) [a..<b]))"

definition complete_array :: "jsstring \<Rightarrow> nat \<Rightarrow> nat \<Rightarrow> bool" where
  "complete_array text start fin \<longleftrightarrow>
     start < fin \<and> fin < length text \<and>
     opens_at text start \<and> (\<forall>k<start. \<not> opens_at text k) \<and>
     closes_at text fin \<and> bracket_depth text start (Suc fin) = 0 \<and>
     (\<forall>j. start < j \<and> j \<le> fin \<longrightarrow> 0 < bracket_depth text start j)"

text \<open>What the loop of \<open>extractJSONArrayStrict\<close> knows when it is about to read the index \<open>i\<close>.\<close>

definition strict_inv :: "jsstring \<Rightarrow> nat \<Rightarrow> strict_state \<Rightarrow> bool" where
  "strict_inv text i st =
     (case st of (start, depth, inStr, esc) \<Rightarrow>
        foldl string_step (False, False) (take i text) = (inStr, esc) \<and>
        (if start = - 1 then depth = 0 \<and> (\<forall>k<i. \<not> opens_at text k)
         else 0 \<le> start \<and> nat start < i \<and> opens_at text (nat start) \<and>
              (\<forall>k<nat start. \<not> opens_at text k) \<and>
              int depth = bracket_depth text (nat start) i \<and>
              (\<forall>j. nat start < j \<and> j \<le> i \<longrightarrow> 0 < bracket_depth text (nat start) j)))"

text \<open>The first and the last position of a character in a text.\<close>

definition first_index :: "jsstring \<Rightarrow> jschar \<Rightarrow> nat \<Rightarrow> bool" where
  "first_index s c i \<longleftrightarrow> i < length s \<and> s ! i = c \<and> (\<forall>k<i. s ! k \<noteq> c)"

definition last_index :: "jsstring \<Rightarrow> jschar \<Rightarrow> nat \<Rightarrow> bool" where
  "last_index s c j \<longleftrightarrow> j < length s \<and> s ! j = c \<and> (\<forall>k. j < k \<and> k < length s \<longrightarrow> s ! k \<noteq> c)"

section \<open>The tag repair\<close>

text \<open>\<open>String.prototype.startsWith\<close>, \<open>endsWith\<close> and \<open>includes\<close>.\<close>

definition startsWith :: "jsstring \<Rightarrow> jsstring \<Rightarrow> bool" where
  "startsWith s p \<longleftrightarrow> take (length p) s = p"

definition endsWith :: "jsstring \<Rightarrow> jsstring \<Rightarrow> bool" where
  "endsWith s p \<longleftrightarrow> startsWith (rev s) (rev p)"

fun includes_js :: "jsstring \<Rightarrow> jsstring \<Rightarrow> bool" where
  "includes_js [] p = (p = [])"
| "includes_js (c # cs) p = (startsWith (c # cs) p \<or> includes_js cs p)"

text \<open>
  \<open>autoCloseAngleBrackets\<close>, on the text from the index \<open>i\<close> of the loop on. After a \<open><\<close> the
  inner loop stops at the first \<open>>\<close> or \<open><\<close>: a \<open>>\<close> ends a whole tag, a \<open><\<close> or the end of
  the text ends a segment that gets a \<open>>\<close> appended unless it ends with one already.
\<close>

function autoCloseAngleBrackets :: "jsstring \<Rightarrow> jsstring" where
  "autoCloseAngleBrackets rest =
     (case dropWhile (\<lambda>c. c \<noteq> LT) rest of
        [] \<Rightarrow> rest
      | lt # after \<Rightarrow>
          takeWhile (\<lambda>c. c \<noteq> LT) rest @
            (case dropWhile (\<lambda>c. c \<noteq> GT \<and> c \<noteq> LT) after of
               [] \<Rightarrow>
                 (let segment = lt # after
                  in if endsWith segment [GT] then segment else segment @ [GT])
             | d # others \<Rightarrow>
                 if d = GT then
                   lt # takeWhile (\<lambda>c. c \<noteq> GT \<and> c \<noteq> LT) after @ [GT]
                     @ autoCloseAngleBrackets others
                 else
                   (let segment = lt # takeWhile (\<lambda>c. c \<noteq> GT \<and> c \<noteq> LT) after
                    in (if endsWith segment [GT] then segment else segment @ [GT])
                         @ autoCloseAngleBrackets (d # others))))"
  by pat_completeness auto
termination
proof (relation "measure length")
  fix rest after others :: jsstring and lt d :: jschar
  assume a: "dropWhile (\<lambda>c. c \<noteq> LT) rest = lt # after"
    and b: "dropWhile (\<lambda>c. c \<noteq> GT \<and> c \<noteq> LT) after = d # others"
  have "length (lt # after) \<le> length rest"
    using a length_dropWhile_le [of "\<lambda>c. c \<noteq> LT" rest] by simp
  moreover have "length (d # others) \<le> length after"
    using b length_dropWhile_le [of "\<lambda>c. c \<noteq> GT \<and> c \<noteq> LT" after] by simp
  ultimately show "(others, rest) \<in> measure length" and "(d # others, rest) \<in> measure length"
    by simp_all
qed simp

text \<open>
  The next match of \<open>/<([^>]+)>/g\<close> in a text: the text before the match, the group, and
  the text after the match. A \<open><\<close> starts a match when at least one character other than
  \<open>>\<close> follows it and a \<open>>\<close> comes later; the group runs up to the first \<open>>\<close>.
\<close>

fun next_tag :: "jsstring \<Rightarrow> (jsstring \<times> jsstring \<times> jsstring) option" where
  "next_tag [] = None"
| "next_tag (c # cs) =
     (if c = LT \<and> takeWhile (\<lambda>x. x \<noteq> GT) cs \<noteq> [] \<and> dropWhile (\<lambda>x. x \<noteq> GT) cs \<noteq> []
      then Some ([], takeWhile (\<lambda>x. x \<noteq> GT) cs, tl (dropWhile (\<lambda>x. x \<noteq> GT) cs))
      else map_option (\<lambda>(before, m1, after). (c # before, m1, after)) (next_tag cs))"

text \<open>The text after a match is shorter than the text searched: the loop over the matches ends.\<close>

lemma next_tag_shorter:
  "next_tag rest = Some (before, m1, after) \<Longrightarrow> length after < length rest"
proof (induction rest arbitrary: before)
  case Nil
  then show ?case by simp
next
  case (Cons c cs)
  show ?case
  proof (cases "c = LT \<and> takeWhile (\<lambda>x. x \<noteq> GT) cs \<noteq> [] \<and> dropWhile (\<lambda>x. x \<noteq> GT) cs \<noteq> []")
    case True
    with Cons.prems have "after = tl (dropWhile (\<lambda>x. x \<noteq> GT) cs)" by simp
    then have "length after \<le> length (dropWhile (\<lambda>x. x \<noteq> GT) cs)" by simp
    also have "\<dots> \<le> length cs" by (rule length_dropWhile_le)
    finally show ?thesis by simp
  next
    case False
    with Cons.prems obtain b where "next_tag cs = Some (b, m1, after)"
      by (auto split: if_splits)
    from Cons.IH [OF this] show ?thesis by simp
  qed
qed

text \<open>\<open>s.split(/\s+/)[0] || ''\<close>: the characters of \<open>s\<close> before its first white space.\<close>

definition first_word :: "jsstring \<Rightarrow> jsstring" where
  "first_word s = takeWhile (\<lambda>c. \<not> is_space c) s"

definition DEFAULT_VOID_TAGS :: "jsstring list" where
  "DEFAULT_VOID_TAGS =
     [js ''area'', js ''base'', js ''br'', js ''col'', js ''embed'', js ''hr'', js ''img'',
      js ''input'', js ''link'', js ''meta'', js ''param'', js ''source'', js ''track'',
      js ''wbr'', js ''mxgeometry'', js ''mxpoint'']"

text \<open>
  The options object of \<open>fixUnclosed\<close> and \<open>fixXMLorHTML\<close>; an absent property is \<open>None\<close>.
\<close>

record fix_opts =
  opt_mode :: "jsstring option"
  opt_html :: "bool option"
  opt_voidTags :: "jsstring list option"

text \<open>
  The loop \<open>while ((m = tagRe.exec(text)) !== null)\<close> of \<open>fixXMLorHTML\<close> and what follows it,
  on the text from \<open>lastIndex\<close> on. \<open>stk\<close> is the stack of open tags, its head the top. \<open>String.prototype.toLowerCase\<close>
  belongs to the language: it is the parameter \<open>lower\<close>.
\<close>

function tag_loop ::
  "(jsstring \<Rightarrow> jsstring) \<Rightarrow> jsstring list \<Rightarrow> bool \<Rightarrow> jsstring \<Rightarrow> jsstring list \<Rightarrow> jsstring
     \<Rightarrow> jsstring" where
  "tag_loop lower voidTags treatAsHTML rest stk out =
     (case next_tag rest of
        None \<Rightarrow> out @ rest @ concat (map (\<lambda>name. [LT, SLASH] @ name @ [GT]) stk)
      | Some (before, m1, after) \<Rightarrow>
          (let normalize = (\<lambda>name. if treatAsHTML then lower name else name);
               rawTag = trim m1;
               out1 = out @ before @ [LT] @ rawTag @ [GT]
           in if startsWith rawTag (js ''!--'') \<or> startsWith rawTag (js ''!DOCTYPE'') \<or>
                 startsWith rawTag (js ''![CDATA['') \<or> startsWith rawTag (js ''?'')
              then tag_loop lower voidTags treatAsHTML after stk out1
              else if startsWith rawTag [SLASH] then
                (let name = normalize (first_word (drop 1 rawTag))
                 in tag_loop lower voidTags treatAsHTML after
                      (if stk \<noteq> [] \<and> normalize (hd stk) = name then tl stk else stk)
                      out1)
              else
                (let selfClosing = endsWith rawTag [SLASH];
                     name = normalize (first_word rawTag)
                 in tag_loop lower voidTags treatAsHTML after
                      (if \<not> selfClosing \<and> name \<notin> set voidTags then name # stk else stk)
                      out1)))"
  by pat_completeness auto
termination
  by (relation "measure (\<lambda>(lower, voidTags, treatAsHTML, rest, stk, out). length rest)")
     (auto dest: next_tag_shorter)

definition fixXMLorHTML :: "(jsstring \<Rightarrow> jsstring) \<Rightarrow> jsstring \<Rightarrow> fix_opts \<Rightarrow> jsstring" where
  "fixXMLorHTML lower input opts =
     (let voidTags = (case opt_voidTags opts of Some tags \<Rightarrow> tags | None \<Rightarrow> DEFAULT_VOID_TAGS);
          treatAsHTML = (opt_html opts \<noteq> Some False);
          src = remove_zero_width (remove_bom input);
          text = autoCloseAngleBrackets src
      in tag_loop lower voidTags treatAsHTML text [] [])"

text \<open>\<open>isLikelyJSON\<close> and the entry point \<open>fixUnclosed\<close>.\<close>

definition isLikelyJSON :: "jsstring \<Rightarrow> bool" where
  "isLikelyJSON input =
     (let s = trimStart input
      in if s = [] then False
         else if startsWith s [LBRACE] \<or> startsWith s [LBRACK] then True
         else includes_js s (js '':{'') \<or> includes_js s [QUOTE, 58, LBRACK]
                \<or> includes_js s ([QUOTE] @ js ''type'' @ [QUOTE]))"

definition fixUnclosed ::
  "(jsstring \<Rightarrow> jsstring) \<Rightarrow> (jsstring \<Rightarrow> 'j option) \<Rightarrow> jsstring \<Rightarrow> fix_opts \<Rightarrow> jsstring" where
  "fixUnclosed lower parse input opts =
     (let mode = (case opt_mode opts of None \<Rightarrow> js ''auto''
                  | Some m \<Rightarrow> if m = [] then js ''auto'' else m)
      in if mode = js ''json'' \<or> (mode = js ''auto'' \<and> isLikelyJSON input)
         then fixJSON parse input
         else fixXMLorHTML lower input opts)"

text \<open>
  The lower-casing of the letters \<open>A\<close> to \<open>Z\<close>, which is what \<open>toLowerCase\<close> does to a text
  of ASCII characters; the examples on such texts use it for \<open>lower\<close>.
\<close>

definition ascii_lower :: "jschar \<Rightarrow> jschar" where
  "ascii_lower c = (if 65 \<le> c \<and> c \<le> 90 then c + 32 else c)"

definition ascii_toLowerCase :: "jsstring \<Rightarrow> jsstring" where
  "ascii_toLowerCase s = map ascii_lower s"

text \<open>The empty options object \<open>{}\<close>, which is what a call without options gets.\<close>

definition no_opts :: fix_opts where
  "no_opts = \<lparr>opt_mode = None, opt_html = None, opt_voidTags = None\<rparr>"

section \<open>The finalization step\<close>

text \<open>
  \<open>Array.isArray(v)\<close>, and \<open>data && Array.isArray(data.key)\<close> together with the array it
  finds: \<open>data.key\<close> is an array only when \<open>data\<close> is an object with the member \<open>key\<close> (the
  last one of that name) and this member is an array; on \<open>null\<close> the \<open>&&\<close> stops before the
  property is read, and a number, string or boolean has no such property.
\<close>

definition isArray :: "json \<Rightarrow> bool" where
  "isArray v = (case v of JArr xs \<Rightarrow> True | _ \<Rightarrow> False)"

definition array_field :: "json \<Rightarrow> jsstring \<Rightarrow> json option" where
  "array_field data key =
     (case data of
        JObj members \<Rightarrow>
          (case map_of (rev members) key of
             Some v \<Rightarrow> if isArray v then Some v else None
           | None \<Rightarrow> None)
      | _ \<Rightarrow> None)"

text \<open>
  \<open>trimmed.match(/\[[\s\S]*\]/)\<close>: from the first \<open>[\<close> through the last \<open>]\<close> after it, when
  there is one.
\<close>

definition inner_array :: "jsstring \<Rightarrow> jsstring option" where
  "inner_array trimmed =
     (case dropWhile (\<lambda>c. c \<noteq> LBRACK) trimmed of
        [] \<Rightarrow> None
      | b # after \<Rightarrow>
          if RBRACK \<in> set after
          then Some (b # rev (dropWhile (\<lambda>c. c \<noteq> RBRACK) (rev after)))
          else None)"

text \<open>
  \<open>ensureExcalidrawArray\<close>. \<open>parse\<close> is \<open>JSON.parse\<close> (\<open>None\<close> where it throws) and \<open>stringify\<close>
  is \<open>JSON.stringify(value, null, 2)\<close>; every \<open>try\<close> of the source is the \<open>case\<close> on what
  \<open>parse\<close> gives.
\<close>

definition ensureExcalidrawArray ::
  "(jsstring \<Rightarrow> json option) \<Rightarrow> (json \<Rightarrow> jsstring) \<Rightarrow> jsstring \<Rightarrow> jsstring" where
  "ensureExcalidrawArray parse stringify code =
     (if code = [] then code
      else
        (let trimmed = trim code in
         if trimmed = [] then trimmed
         else if hd trimmed = LBRACK \<and> last trimmed = RBRACK then
           (case parse trimmed of
              Some data \<Rightarrow> if isArray data then stringify data else trimmed
            | None \<Rightarrow> trimmed)
         else
           (case parse trimmed of
              Some data \<Rightarrow>
                if isArray data then stringify data
                else
                  (case array_field data (js ''elements'') of
                     Some elements \<Rightarrow> stringify elements
                   | None \<Rightarrow>
                       (case array_field data (js ''items'') of
                          Some items \<Rightarrow> stringify items
                        | None \<Rightarrow> stringify (JArr [data])))
            | None \<Rightarrow>
                (let withBrackets = [LBRACK] @ trimmed @ [RBRACK];
                     wrapped = (case parse withBrackets of
                                  Some arr \<Rightarrow> if isArray arr then Some (stringify arr) else None
                                | None \<Rightarrow> None)
                 in case wrapped of
                      Some text \<Rightarrow> text
                    | None \<Rightarrow>
                        (case inner_array trimmed of
                           Some inner \<Rightarrow>
                             (case parse inner of
                                Some arr \<Rightarrow> if isArray arr then stringify arr else trimmed
                              | None \<Rightarrow> trimmed)
                         | None \<Rightarrow> trimmed)))))"

section \<open>The fence extractor\<close>

text \<open>
  The two regular expressions of \<open>extractCodeFence\<close> are searched from the left; a match at
  a position is found by going through the pattern once, since no other choice of the
  greedy \<open>\s*\<close> can make the rest of the pattern match: white space is neither a backtick
  nor the first character of the tag. \<open>until_fence s\<close> is the lazy group \<open>([\s\S]*?)\<close> before
  the closing fence: the text up to the first fence in \<open>s\<close>.

  The tag \<open>lang\<close> is put into the source of the first pattern as it is, so that the
  constructor \<open>new RegExp\<close> reads it as a pattern. For a tag that is a word of ASCII letters
  and digits (\<open>plain_lang\<close>), as \<open>xml\<close> and \<open>json\<close> in both pipelines, the pattern is the one
  written out here, the word matched without regard to the case of ASCII letters as the
  flag \<open>i\<close> asks. For any other tag the pattern is what the engine of the language makes
  of the source.
\<close>

definition FENCE :: jsstring where
  "FENCE = [BACKTICK, BACKTICK, BACKTICK]"

fun until_fence :: "jsstring \<Rightarrow> jsstring option" where
  "until_fence [] = None"
| "until_fence (c # cs) =
     (if startsWith (c # cs) FENCE then Some []
      else map_option (\<lambda>g. c # g) (until_fence cs))"

definition is_alnum :: "jschar \<Rightarrow> bool" where
  "is_alnum c \<longleftrightarrow> (48 \<le> c \<and> c \<le> 57) \<or> (65 \<le> c \<and> c \<le> 90) \<or> (97 \<le> c \<and> c \<le> 122)"

definition plain_lang :: "jsstring \<Rightarrow> bool" where
  "plain_lang lang \<longleftrightarrow> lang \<noteq> [] \<and> list_all is_alnum lang"

definition startsWith_ci :: "jsstring \<Rightarrow> jsstring \<Rightarrow> bool" where
  "startsWith_ci s p \<longleftrightarrow> map ascii_lower (take (length p) s) = map ascii_lower p"

text \<open>
  A match of \<open>```\s*lang\s*([\s\S]*?)```\<close> for a tag \<open>lang\<close> that is such a word, and of
  \<open>```\s*([\s\S]*?)```\<close>, at the start of \<open>s\<close>: the group.
\<close>

definition match_tagged :: "jsstring \<Rightarrow> jsstring \<Rightarrow> jsstring option" where
  "match_tagged lang s =
     (case strip_prefix FENCE s of
        None \<Rightarrow> None
      | Some r \<Rightarrow>
          (let q = dropWhile is_space r
           in if startsWith_ci q lang
              then until_fence (dropWhile is_space (drop (length lang) q))
              else None))"

definition match_any :: "jsstring \<Rightarrow> jsstring option" where
  "match_any s =
     (case strip_prefix FENCE s of
        None \<Rightarrow> None
      | Some r \<Rightarrow> until_fence (dropWhile is_space r))"

text \<open>\<open>code.match(pattern)\<close>: the match at the leftmost position that has one.\<close>

fun first_match :: "(jsstring \<Rightarrow> 'a option) \<Rightarrow> jsstring \<Rightarrow> 'a option" where
  "first_match m [] = m []"
| "first_match m (c # cs) =
     (case m (c # cs) of Some g \<Rightarrow> Some g | None \<Rightarrow> first_match m cs)"

text \<open>
  The constructor \<open>new RegExp(source, 'i')\<close> belongs to the language, not to the repository.
  It is the parameter \<open>regexp\<close>: for a source that is no pattern it throws a \<open>SyntaxError\<close>
  (\<open>Inl\<close>), and for any other it gives the pattern, of which \<open>extractCodeFence\<close> uses
  \<open>code.match(pattern)\<close> alone: the first group of the leftmost match, \<open>None\<close> when nothing
  matches or the group took no part. \<open>pattern_source lang\<close> is the value of the template
  literal that the step hands to the constructor, and \<open>tagged_pattern\<close> is the pattern
  made of it: the one written out above for a word, the engine's for any other tag.
\<close>

type_synonym 'e regexp = "jsstring \<Rightarrow> 'e + (jsstring \<Rightarrow> jsstring option)"

definition pattern_source :: "jsstring \<Rightarrow> jsstring" where
  "pattern_source lang =
     FENCE @ [BACKSLASH] @ js ''s*'' @ lang @ [BACKSLASH] @ js ''s*(['' @ [BACKSLASH] @ js ''s''
       @ [BACKSLASH] @ js ''S]*?)'' @ FENCE"

definition tagged_pattern :: "'e regexp \<Rightarrow> jsstring \<Rightarrow> 'e + (jsstring \<Rightarrow> jsstring option)" where
  "tagged_pattern regexp lang =
     (if plain_lang lang then Inr (first_match (match_tagged lang))
      else regexp (pattern_source lang))"

text \<open>
  The second half of \<open>extractCodeFence\<close>: the payload of the first fence of any kind when
  it is not empty, else the trimmed text.
\<close>

definition any_fence :: "jsstring \<Rightarrow> jsstring" where
  "any_fence code =
     (case first_match match_any code of
        Some g \<Rightarrow> if g \<noteq> [] then trim g else trim code
      | None \<Rightarrow> trim code)"

text \<open>
  \<open>extractCodeFence(code, lang)\<close>; a \<open>lang\<close> that is \<open>null\<close> is \<open>None\<close>, and the empty string
  is as false as \<open>null\<close>. The constructor is called before anything is matched, so that
  what it throws leaves the step.
\<close>

definition extractCodeFence :: "'e regexp \<Rightarrow> jsstring \<Rightarrow> jsstring option \<Rightarrow> 'e + jsstring" where
  "extractCodeFence regexp code lang =
     (if code = [] then Inr code
      else
        (case lang of
           None \<Rightarrow> Inr (any_fence code)
         | Some l \<Rightarrow>
             if l = [] then Inr (any_fence code)
             else
               (case tagged_pattern regexp l of
                  Inl error \<Rightarrow> Inl error
                | Inr pattern \<Rightarrow>
                    (case pattern code of
                       Some g \<Rightarrow> if g \<noteq> [] then Inr (trim g) else Inr (any_fence code)
                     | None \<Rightarrow> Inr (any_fence code)))))"

text \<open>
  A stand-in for the constructor, for the texts evaluated below. The one error it knows
  is a quantifier with nothing to repeat: outside a class (no \<open>[\<close> before it), a letter or
  digit followed by two of \<open>*\<close> and \<open>+\<close> is a term with its quantifier and then a second
  quantifier, which no pattern has; the source built from the tag \<open>c++\<close> is refused for
  it. For any other source it gives a pattern that matches nothing; it is used so for
  the tag \<open>c#\<close> alone, on a text without a fence, which the pattern of the engine does
  not match either.
\<close>

datatype js_error = SyntaxError

fun nothing_to_repeat :: "jsstring \<Rightarrow> bool" where
  "nothing_to_repeat (a # q1 # q2 # rest) =
     ((is_alnum a \<and> (q1 = 42 \<or> q1 = 43) \<and> (q2 = 42 \<or> q2 = 43)) \<or>
      (a \<noteq> LBRACK \<and> nothing_to_repeat (q1 # q2 # rest)))"
| "nothing_to_repeat rest = False"

definition RegExp_standin :: "js_error regexp" where
  "RegExp_standin source =
     (if nothing_to_repeat source then Inl SyntaxError else Inr (\<lambda>code. None))"

section \<open>The other steps of the pipelines\<close>

text \<open>\<open>cleanBOM\<close>.\<close>

definition cleanBOM :: "jsstring \<Rightarrow> jsstring" where
  "cleanBOM code = (if code = [] then code else trim (remove_zero_width (remove_bom code)))"

text \<open>
  A regular expression's \<open>test\<close> and \<open>search\<close>: whether, and at which index first, a pattern
  matches. \<open>m s\<close> says that the pattern matches at the start of \<open>s\<close>.
\<close>

fun regex_test :: "(jsstring \<Rightarrow> bool) \<Rightarrow> jsstring \<Rightarrow> bool" where
  "regex_test m [] = m []"
| "regex_test m (c # cs) = (m (c # cs) \<or> regex_test m cs)"

fun search_from :: "(jsstring \<Rightarrow> bool) \<Rightarrow> int \<Rightarrow> jsstring \<Rightarrow> int" where
  "search_from m i [] = (if m [] then i else - 1)"
| "search_from m i (c # cs) = (if m (c # cs) then i else search_from m (i + 1) cs)"

text \<open>
  \<open>s.replace(/pat/g, rep)\<close> for a pattern that is a text to be found as it is (none of
  those used here is empty): every occurrence, from the left, none overlapping another.
\<close>

function replace_all :: "jsstring \<Rightarrow> jsstring \<Rightarrow> jsstring \<Rightarrow> jsstring" where
  "replace_all pat rep [] = []"
| "replace_all pat rep (c # cs) =
     (if pat \<noteq> [] \<and> startsWith (c # cs) pat
      then rep @ replace_all pat rep (drop (length pat) (c # cs))
      else c # replace_all pat rep cs)"
  by pat_completeness auto
termination
  by (relation "measure (\<lambda>(pat, rep, s). length s)") auto

text \<open>
  \<open>unescapeHTML\<close>. The class \<open>[a-z!?]\<close> under the flag \<open>i\<close> is the ASCII letters, \<open>!\<close> and \<open>?\<close>;
  \<open>raw_tag_at\<close> is \<open>/[<][a-z!?]/i\<close> and \<open>escaped_tag_at\<close> is \<open>/&lt;\s*[a-z!?]/i\<close> at the start
  of a text.
\<close>

definition tag_start :: "jschar \<Rightarrow> bool" where
  "tag_start c \<longleftrightarrow> (65 \<le> c \<and> c \<le> 90) \<or> (97 \<le> c \<and> c \<le> 122) \<or> c = 33 \<or> c = 63"

definition raw_tag_at :: "jsstring \<Rightarrow> bool" where
  "raw_tag_at s = (case s of lt # c # rest \<Rightarrow> lt = LT \<and> tag_start c | _ \<Rightarrow> False)"

definition escaped_tag_at :: "jsstring \<Rightarrow> bool" where
  "escaped_tag_at s \<longleftrightarrow>
     startsWith_ci s (js ''&lt;'') \<and> length s \<ge> 4 \<and>
     (case dropWhile is_space (drop 4 s) of [] \<Rightarrow> False | c # rest \<Rightarrow> tag_start c)"

definition unescapeHTML :: "jsstring \<Rightarrow> jsstring" where
  "unescapeHTML code =
     (if code = [] then code
      else if \<not> regex_test raw_tag_at code \<and> regex_test escaped_tag_at code then
        replace_all (js ''&#39;'') [39]
          (replace_all (js ''&quot;'') [QUOTE]
            (replace_all (js ''&amp;'') (js ''&'')
              (replace_all (js ''&gt;'') [GT]
                (replace_all (js ''&lt;'') [LT] code))))
      else code)"

text \<open>
  \<open>extractXML\<close>; \<open>root_tag_at\<close> is \<open>/<(mxfile|mxGraphModel|diagram)([\s>])/i\<close> at the start of
  a text.
\<close>

definition root_tag_at :: "jsstring \<Rightarrow> bool" where
  "root_tag_at s =
     (case s of
        [] \<Rightarrow> False
      | lt # r \<Rightarrow>
          lt = LT \<and>
          list_ex
            (\<lambda>name. startsWith_ci r name \<and> length name \<le> length r \<and>
               (case drop (length name) r of [] \<Rightarrow> False | c # rest \<Rightarrow> is_space c \<or> c = GT))
            [js ''mxfile'', js ''mxGraphModel'', js ''diagram''])"

definition extractXML :: "jsstring \<Rightarrow> jsstring" where
  "extractXML code =
     (if code = [] then code
      else
        (let start = search_from root_tag_at 0 code;
             fin = lastIndexOf code GT
         in if start \<noteq> - 1 \<and> fin \<noteq> - 1 \<and> fin > start then slice code start (fin + 1)
            else code))"

text \<open>
  \<open>normalizeMxTags\<close>. \<open>mx_match\<close> is one match of
  \<open>/(<\s*\/?)(mxgraphmodel|mxcell|mxgeometry|mxpoint)\b/gi\<close> at the start of a text: what
  replaces it, and how many characters it takes after its \<open><\<close>. The name found is made of
  ASCII letters, so that \<open>toLowerCase\<close> on it is \<open>ascii_toLowerCase\<close>.
\<close>

definition mxTagMap :: "(jsstring \<times> jsstring) list" where
  "mxTagMap =
     [(js ''mxgraphmodel'', js ''mxGraphModel''), (js ''mxcell'', js ''mxCell''),
      (js ''mxgeometry'', js ''mxGeometry''), (js ''mxpoint'', js ''mxPoint'')]"

definition is_word :: "jschar \<Rightarrow> bool" where
  "is_word c \<longleftrightarrow> is_alnum c \<or> c = 95"

definition mx_match :: "jsstring \<Rightarrow> (jsstring \<times> nat) option" where
  "mx_match s =
     (case s of
        [] \<Rightarrow> None
      | lt # r \<Rightarrow>
          if lt \<noteq> LT then None
          else
            (let ws = takeWhile is_space r;
                 r1 = dropWhile is_space r;
                 slash = (if startsWith r1 [SLASH] \<and> r1 \<noteq> [] then [SLASH] else []);
                 r2 = drop (length slash) r1;
                 found = filter
                   (\<lambda>name. startsWith_ci r2 name \<and> length name \<le> length r2 \<and>
                      (case drop (length name) r2 of [] \<Rightarrow> True | c # rest \<Rightarrow> \<not> is_word c))
                   (map fst mxTagMap)
             in case found of
                  [] \<Rightarrow> None
                | name # others \<Rightarrow>
                    (let tagName = take (length name) r2;
                         canonical = (case map_of mxTagMap (ascii_toLowerCase tagName) of
                                        Some canon \<Rightarrow> canon | None \<Rightarrow> tagName)
                     in Some (lt # ws @ slash @ canonical,
                              length ws + length slash + length name))))"

function mx_replace :: "jsstring \<Rightarrow> jsstring" where
  "mx_replace [] = []"
| "mx_replace (c # cs) =
     (case mx_match (c # cs) of
        Some (replacement, taken) \<Rightarrow> replacement @ mx_replace (drop taken cs)
      | None \<Rightarrow> c # mx_replace cs)"
  by pat_completeness auto
termination
  by (relation "measure length") auto

definition normalizeMxTags :: "jsstring \<Rightarrow> jsstring" where
  "normalizeMxTags code = (if code = [] then code else mx_replace code)"

text \<open>\<open>fixXML\<close> and \<open>repairJSON\<close>, which hand the text to the repair.\<close>

definition fixXML ::
  "(jsstring \<Rightarrow> jsstring) \<Rightarrow> (jsstring \<Rightarrow> 'j option) \<Rightarrow> jsstring \<Rightarrow> jsstring" where
  "fixXML lower parse code =
     (if code = [] then code
      else fixUnclosed lower parse code
             \<lparr>opt_mode = Some (js ''xml''), opt_html = None, opt_voidTags = None\<rparr>)"

definition repairJSON :: "(jsstring \<Rightarrow> 'j option) \<Rightarrow> jsstring \<Rightarrow> jsstring" where
  "repairJSON parse code = (if code = [] then code else fixJSON parse code)"

section \<open>The exported steps and what they throw\<close>

text \<open>
  The functions above take \<open>JSON.parse\<close> with \<open>None\<close> for its exception, which is enough
  for what they return. Whether an exception can leave a step is a question about the
  \<open>try\<close> statements themselves, so the functions that reach \<open>JSON.parse\<close> are written a
  second time with the exception thrown (\<open>Inl\<close>) and every \<open>try\<close> as \<open>try_catch\<close>.
  A \<open>try\<close> block that holds a \<open>return\<close> gives \<open>Some\<close> of the value returned, or \<open>None\<close> when
  control leaves it at its end; \<open>returned stmt rest\<close> runs the rest of the function in the
  second case. \<open>caught parse\<close> is \<open>parse\<close> with its exception as \<open>None\<close>, which is how the
  functions above take it.
\<close>

definition returned :: "'e + 'a option \<Rightarrow> 'e + 'a \<Rightarrow> 'e + 'a" where
  "returned stmt rest =
     (case stmt of Inl error \<Rightarrow> Inl error | Inr (Some v) \<Rightarrow> Inr v | Inr None \<Rightarrow> rest)"

definition caught :: "('a \<Rightarrow> 'e + 'b) \<Rightarrow> 'a \<Rightarrow> 'b option" where
  "caught parse text = (case parse text of Inl error \<Rightarrow> None | Inr v \<Rightarrow> Some v)"

definition fixJSON_try :: "(jsstring \<Rightarrow> 'e + 'j) \<Rightarrow> jsstring \<Rightarrow> 'e + jsstring" where
  "fixJSON_try parse input =
     (let raw = trim input in
      if raw = [] then Inr raw
      else
        returned
          (try_catch
             (case parse raw of Inl error \<Rightarrow> Inl error | Inr data \<Rightarrow> Inr (Some raw))
             (\<lambda>error. Inr None))
          (let fixed = fixJSONStructure raw in
           returned
             (try_catch
                (case parse fixed of Inl error \<Rightarrow> Inl error | Inr data \<Rightarrow> Inr (Some fixed))
                (\<lambda>error. Inr None))
             (Inr (stripTrailingCommas fixed))))"

definition fixUnclosed_try ::
  "(jsstring \<Rightarrow> jsstring) \<Rightarrow> (jsstring \<Rightarrow> 'e + 'j) \<Rightarrow> jsstring \<Rightarrow> fix_opts \<Rightarrow> 'e + jsstring" where
  "fixUnclosed_try lower parse input opts =
     (let mode = (case opt_mode opts of None \<Rightarrow> js ''auto''
                  | Some m \<Rightarrow> if m = [] then js ''auto'' else m)
      in if mode = js ''json'' \<or> (mode = js ''auto'' \<and> isLikelyJSON input)
         then fixJSON_try parse input
         else Inr (fixXMLorHTML lower input opts))"

definition fixXML_try ::
  "(jsstring \<Rightarrow> jsstring) \<Rightarrow> (jsstring \<Rightarrow> 'e + 'j) \<Rightarrow> jsstring \<Rightarrow> 'e + jsstring" where
  "fixXML_try lower parse code =
     (if code = [] then Inr code
      else fixUnclosed_try lower parse code
             \<lparr>opt_mode = Some (js ''xml''), opt_html = None, opt_voidTags = None\<rparr>)"

definition repairJSON_try :: "(jsstring \<Rightarrow> 'e + 'j) \<Rightarrow> jsstring \<Rightarrow> 'e + jsstring" where
  "repairJSON_try parse code = (if code = [] then Inr code else fixJSON_try parse code)"

definition ensureExcalidrawArray_try ::
  "(jsstring \<Rightarrow> 'e + json) \<Rightarrow> (json \<Rightarrow> jsstring) \<Rightarrow> jsstring \<Rightarrow> 'e + jsstring" where
  "ensureExcalidrawArray_try parse stringify code =
     (if code = [] then Inr code
      else
        (let trimmed = trim code in
         if trimmed = [] then Inr trimmed
         else if hd trimmed = LBRACK \<and> last trimmed = RBRACK then
           try_catch
             (case parse trimmed of
                Inl error \<Rightarrow> Inl error
              | Inr data \<Rightarrow> if isArray data then Inr (stringify data) else Inr trimmed)
             (\<lambda>error. Inr trimmed)
         else
           try_catch
             (case parse trimmed of
                Inl error \<Rightarrow> Inl error
              | Inr data \<Rightarrow>
                  if isArray data then Inr (stringify data)
                  else
                    (case array_field data (js ''elements'') of
                       Some elements \<Rightarrow> Inr (stringify elements)
                     | None \<Rightarrow>
                         (case array_field data (js ''items'') of
                            Some items \<Rightarrow> Inr (stringify items)
                          | None \<Rightarrow> Inr (stringify (JArr [data])))))
             (\<lambda>error.
                let withBrackets = [LBRACK] @ trimmed @ [RBRACK] in
                returned
                  (try_catch
                     (case parse withBrackets of
                        Inl error \<Rightarrow> Inl error
                      | Inr arr \<Rightarrow> if isArray arr then Inr (Some (stringify arr)) else Inr None)
                     (\<lambda>error. Inr None))
                  (returned
                     (case inner_array trimmed of
                        Some inner \<Rightarrow>
                          try_catch
                            (case parse inner of
                               Inl error \<Rightarrow> Inl error
                             | Inr arr \<Rightarrow>
                                 if isArray arr then Inr (Some (stringify arr)) else Inr None)
                            (\<lambda>error. Inr None)
                      | None \<Rightarrow> Inr None)
                     (Inr trimmed)))))"

text \<open>
  A value of JavaScript as a step sees it: a string, or \<open>NotString\<close> for any value that is
  not one, whatever it is. The test \<open>typeof code !== 'string'\<close> that opens every step
  returns such a value as it is; of the test \<open>!code\<close> only the empty string is left for a
  string.
\<close>

datatype 'v jsvalue = JSString jsstring | NotString 'v

text \<open>
  The import \<open>optimizeExcalidrawCode\<close> of the module is the parameter \<open>hook\<close>: \<open>None\<close> when
  the import is undefined, else a function on texts, which as any function of JavaScript
  may return a value of any kind and may throw. \<open>optimizeArrows\<close> calls it outside any
  \<open>try\<close> and returns what it returns.
\<close>

type_synonym ('e, 'v) hook = "(jsstring \<Rightarrow> 'e + 'v jsvalue) option"

definition optimizeArrows :: "('e, 'v) hook \<Rightarrow> jsstring \<Rightarrow> 'e + 'v jsvalue" where
  "optimizeArrows hook code =
     (if code = [] then Inr (JSString code)
      else (case hook of Some optimizeExcalidrawCode \<Rightarrow> optimizeExcalidrawCode code
            | None \<Rightarrow> Inr (JSString code)))"

text \<open>
  Modelled from the spec: \<open>optimizeExcalidrawCode\<close>, imported from \<open>./optimizeArrows.js\<close>,
  is not among the sources. The specification describes it as a single external function
  accepting already-valid array-of-elements JSON text and returning text of the same
  shape. \<open>elements_text\<close> is such a text: one that parses as an array of objects.
\<close>

definition elements_text :: "(jsstring \<Rightarrow> json option) \<Rightarrow> jsstring \<Rightarrow> bool" where
  "elements_text parse code =
     (case parse code of
        Some (JArr items) \<Rightarrow> list_all (\<lambda>item. case item of JObj members \<Rightarrow> True | _ \<Rightarrow> False) items
      | _ \<Rightarrow> False)"

text \<open>
  Modelled from the spec: what the specification says of \<open>optimizeExcalidrawCode\<close>, and no
  more. On a text that is array-of-elements JSON the hook returns a text of that shape;
  of any other text nothing is said.
\<close>

definition hook_keeps_shape :: "(jsstring \<Rightarrow> json option) \<Rightarrow> ('e, 'v) hook \<Rightarrow> bool" where
  "hook_keeps_shape parse hook \<longleftrightarrow>
     (case hook of
        None \<Rightarrow> True
      | Some f \<Rightarrow>
          \<forall>code. elements_text parse code \<longrightarrow>
            (\<exists>out. f code = Inr (JSString out) \<and> elements_text parse out))"

text \<open>
  The eleven steps that the module exports, as functions on the values of JavaScript.
  \<open>as_step\<close> is the first line of each, \<open>if (!code || typeof code !== 'string') return code\<close>,
  for a value that is not a string; the functions above return the empty string by
  themselves. \<open>parse\<close> is \<open>JSON.parse\<close> as it throws. The steps that never reach it, nor
  the constructor of a pattern, nor the hook, have no operation that can throw.
  \<open>extractCodeFence\<close> is exported with its second argument; \<open>lang\<close> is the language it is
  given.
\<close>

definition as_step :: "(jsstring \<Rightarrow> 'e + 'v jsvalue) \<Rightarrow> 'v jsvalue \<Rightarrow> 'e + 'v jsvalue" where
  "as_step body code = (case code of NotString v \<Rightarrow> Inr code | JSString s \<Rightarrow> body s)"

datatype export =
  CleanBOM | ExtractCodeFence | UnescapeHTML | ExtractXML | NormalizeMxTags | ExtractJSON
  | ExtractJSONArrayStrict | RepairJSON | FixXML | OptimizeArrows | EnsureExcalidrawArray

definition exported ::
  "'e regexp \<Rightarrow> (jsstring \<Rightarrow> jsstring) \<Rightarrow> (jsstring \<Rightarrow> 'e + json) \<Rightarrow> (json \<Rightarrow> jsstring)
     \<Rightarrow> ('e, 'v) hook \<Rightarrow> jsstring option \<Rightarrow> export \<Rightarrow> 'v jsvalue \<Rightarrow> 'e + 'v jsvalue" where
  "exported regexp lower parse stringify hook lang name =
     (case name of
        CleanBOM \<Rightarrow> as_step (\<lambda>code. Inr (JSString (cleanBOM code)))
      | ExtractCodeFence \<Rightarrow>
          as_step (\<lambda>code. map_sum id JSString (extractCodeFence regexp code lang))
      | UnescapeHTML \<Rightarrow> as_step (\<lambda>code. Inr (JSString (unescapeHTML code)))
      | ExtractXML \<Rightarrow> as_step (\<lambda>code. Inr (JSString (extractXML code)))
      | NormalizeMxTags \<Rightarrow> as_step (\<lambda>code. Inr (JSString (normalizeMxTags code)))
      | ExtractJSON \<Rightarrow> as_step (\<lambda>code. Inr (JSString (extractJSON code)))
      | ExtractJSONArrayStrict \<Rightarrow> as_step (\<lambda>code. Inr (JSString (extractJSONArrayStrict code)))
      | RepairJSON \<Rightarrow> as_step (\<lambda>code. map_sum id JSString (repairJSON_try parse code))
      | FixXML \<Rightarrow> as_step (\<lambda>code. map_sum id JSString (fixXML_try lower parse code))
      | OptimizeArrows \<Rightarrow> as_step (optimizeArrows hook)
      | EnsureExcalidrawArray \<Rightarrow>
          as_step (\<lambda>code. map_sum id JSString (ensureExcalidrawArray_try parse stringify code)))"

text \<open>The language given to \<open>extractCodeFence\<close> is \<open>null\<close>, empty or a word.\<close>

definition lang_is_literal :: "jsstring option \<Rightarrow> bool" where
  "lang_is_literal lang = (case lang of None \<Rightarrow> True | Some l \<Rightarrow> l = [] \<or> plain_lang l)"

text \<open>
  For the examples: \<open>JSON.parse\<close> as it throws, from the reference model, and a hook that
  returns a text of array-of-elements JSON as it is and throws on any other text.
\<close>

definition JSON_parse_js :: "jsstring \<Rightarrow> js_error + json" where
  "JSON_parse_js text = (case JSON_parse text of None \<Rightarrow> Inl SyntaxError | Some v \<Rightarrow> Inr v)"

definition elements_only_hook :: "(js_error, unit) hook" where
  "elements_only_hook =
     Some (\<lambda>code. if elements_text JSON_parse code then Inr (JSString code) else Inl SyntaxError)"

section \<open>Properties of the pipeline engine\<close>

text \<open>
  C1. For every list of steps and every input string, \<open>process\<close> returns a string and never
  an exception, and the string is the one obtained by running the steps in order, each on
  the result of the one before, where a step that throws contributes the input it received.
\<close>

theorem process_isolates_failures:
  "\<exists>out. process steps code = Inr out \<and>
     out = foldl (\<lambda>result step. case step result of Inl e \<Rightarrow> result | Inr r \<Rightarrow> r) code steps"
proof (induction steps arbitrary: code)
  case Nil
  show ?case by (simp add: process_def)
next
  case (Cons st steps)
  show ?case
  proof (cases "st code")
    case (Inl e)
    with Cons [of code] show ?thesis by (simp add: process_def try_catch_def)
  next
    case (Inr r)
    with Cons [of r] show ?thesis by (simp add: process_def try_catch_def)
  qed
qed

section \<open>Evaluation of the definitions on concrete texts\<close>

lemma close_unmatched_Nil:
  "close_unmatched need
     \<lparr>stack = [], inString = a, escaped = b, result = r, lastNonWhitespaceChar = l\<rparr>
   = \<lparr>stack = [], inString = a, escaped = b, result = r, lastNonWhitespaceChar = l\<rparr>"
  by simp

lemma close_unmatched_Cons:
  "close_unmatched need
     \<lparr>stack = u # below, inString = a, escaped = b, result = r, lastNonWhitespaceChar = l\<rparr>
   = (if u \<noteq> need
      then close_unmatched need
             \<lparr>stack = below, inString = a, escaped = b, result = r @ [closing_of u],
                lastNonWhitespaceChar = Some (closing_of u)\<rparr>
      else \<lparr>stack = u # below, inString = a, escaped = b, result = r,
              lastNonWhitespaceChar = l\<rparr>)"
  by simp

declare close_unmatched.simps [simp del]

lemmas trim_eval = trim_def trimStart_def trimEnd_def is_space_def

lemmas repair_eval = close_unmatched_Nil close_unmatched_Cons scan_step_def Let_def
  scan_init_def fixJSONStructure_def scan_text_def addMissingCommas_def remove_bom_def
  remove_zero_width_def closing_of_def opening_of_def closer_follows_def trim_eval

lemmas json_eval = JSON_parse_def json_ws_def is_digit_def parse_number_def parse_fraction_def
  parse_exponent_def Let_def strip_prefix_def unescape_def hex_value_def

section \<open>Properties of the JSON repair\<close>

lemma trimEnd_keeps_hd:
  "rev (dropWhile P (rev xs)) \<noteq> [] \<Longrightarrow> hd (rev (dropWhile P (rev xs))) = hd xs"
proof (induction xs)
  case Nil
  then show ?case by simp
next
  case (Cons x xs)
  show ?case
  proof (cases "rev (dropWhile P (rev xs)) = []")
    case True
    then have "dropWhile P (rev xs) = []" by simp
    then have "dropWhile P (rev xs @ [x]) = dropWhile P [x]"
      by (simp add: dropWhile_append)
    with Cons.prems show ?thesis by (auto split: if_splits)
  next
    case False
    then have "dropWhile P (rev xs) \<noteq> []" by simp
    then have "dropWhile P (rev xs @ [x]) = dropWhile P (rev xs) @ [x]"
      by (auto simp: dropWhile_append)
    then show ?thesis by simp
  qed
qed

lemma trim_idem: "trim (trim s) = trim s"
proof -
  define u where "u = dropWhile is_space s"
  define t where "t = rev (dropWhile is_space (rev u))"
  have t: "trim s = t" by (simp add: trim_def trimStart_def trimEnd_def t_def u_def)
  have "dropWhile is_space t = t"
  proof (cases "t = []")
    case True
    then show ?thesis by simp
  next
    case False
    then have "hd t = hd u" unfolding t_def by (rule trimEnd_keeps_hd)
    moreover have "u \<noteq> []" using False by (auto simp: t_def)
    then have "\<not> is_space (hd u)" unfolding u_def by (rule hd_dropWhile)
    ultimately show ?thesis using False by (cases t) auto
  qed
  moreover have "rev (dropWhile is_space (rev t)) = t"
    by (simp add: t_def)
  ultimately have "trim t = t"
    by (simp add: trim_def trimStart_def trimEnd_def)
  then show ?thesis by (simp add: t)
qed

text \<open>
  C2. When the trimmed form of the input parses, \<open>fixJSON\<close> returns exactly that trimmed form:
  the repair is not run. The function is then idempotent on this input.
\<close>

theorem fixJSON_valid_unchanged:
  assumes "parse (trim S) \<noteq> None"
  shows "fixJSON parse S = trim S \<and> fixJSON parse (fixJSON parse S) = fixJSON parse S"
proof -
  have 1: "fixJSON parse S = trim S" using assms by (simp add: fixJSON_def Let_def)
  have "fixJSON parse (trim S) = trim S"
    using assms by (simp add: fixJSON_def Let_def trim_idem)
  with 1 show ?thesis by simp
qed

theorem fixJSON_valid_unchanged_witness:
  \<open>JSON_parse (trim (js ''  [{"a": 1}, {"b": 2}] '')) \<noteq> None \<and>
   fixJSON JSON_parse (js ''  [{"a": 1}, {"b": 2}] '') = js ''[{"a": 1}, {"b": 2}]''\<close>
proof -
  have t: \<open>trim (js ''  [{"a": 1}, {"b": 2}] '') = js ''[{"a": 1}, {"b": 2}]''\<close>
    by (simp add: trim_eval)
  have h: \<open>JSON_parse (trim (js ''  [{"a": 1}, {"b": 2}] '')) \<noteq> None\<close>
    unfolding t by (simp add: json_eval)
  from fixJSON_valid_unchanged [of JSON_parse \<open>js ''  [{"a": 1}, {"b": 2}] ''\<close>, OF h] h t
  show ?thesis by simp
qed

lemmas span_eval = count_outside_def string_step_def ends_in_escape_def fixJSON_def

lemma close_unmatched_eq:
  "close_unmatched need s =
     s\<lparr>stack := dropWhile (\<lambda>u. u \<noteq> need) (stack s),
       result := result s @ map closing_of (takeWhile (\<lambda>u. u \<noteq> need) (stack s)),
       lastNonWhitespaceChar :=
         (if takeWhile (\<lambda>u. u \<noteq> need) (stack s) = [] then lastNonWhitespaceChar s
          else Some (closing_of (last (takeWhile (\<lambda>u. u \<noteq> need) (stack s)))))\<rparr>"
proof (induction need s rule: close_unmatched.induct)
  case (1 need s)
  show ?case
  proof (cases "stack s")
    case Nil
    then show ?thesis by (subst close_unmatched.simps) simp
  next
    case (Cons unclosed below)
    show ?thesis
    proof (cases "unclosed = need")
      case True
      with Cons show ?thesis by (subst close_unmatched.simps) simp
    next
      case False
      with Cons 1 [OF Cons False] show ?thesis
        by (subst close_unmatched.simps) simp
    qed
  qed
qed

lemma scan_step_closer:
  assumes "\<not> inString s" and "ch = RBRACE \<or> ch = RBRACK"
  shows "result (scan_step s ch) =
           result s @ map closing_of (takeWhile (\<lambda>u. u \<noteq> opening_of ch) (stack s)) @ [ch]"
    and "stack (scan_step s ch) = drop 1 (dropWhile (\<lambda>u. u \<noteq> opening_of ch) (stack s))"
proof -
  define need where "need = opening_of ch"
  define s1 where "s1 = close_unmatched need s"
  have step: "scan_step s ch =
      (if stack s1 \<noteq> [] \<and> hd (stack s1) = need then s1\<lparr>stack := tl (stack s1)\<rparr> else s1)
        \<lparr>result := result (if stack s1 \<noteq> [] \<and> hd (stack s1) = need
                            then s1\<lparr>stack := tl (stack s1)\<rparr> else s1) @ [ch],
          lastNonWhitespaceChar := Some ch\<rparr>"
    using assms unfolding s1_def need_def
    by (auto simp: scan_step_def Let_def)
  have st: "stack s1 = dropWhile (\<lambda>u. u \<noteq> need) (stack s)"
    and res: "result s1 = result s @ map closing_of (takeWhile (\<lambda>u. u \<noteq> need) (stack s))"
    unfolding s1_def by (simp_all add: close_unmatched_eq)
  have "stack s1 = [] \<or> hd (stack s1) = need"
    unfolding st using hd_dropWhile [of "\<lambda>u. u \<noteq> need" "stack s"] by auto
  then have "stack (scan_step s ch) = drop 1 (stack s1)"
    unfolding step by (cases "stack s1") auto
  then show "stack (scan_step s ch) = drop 1 (dropWhile (\<lambda>u. u \<noteq> opening_of ch) (stack s))"
    by (simp add: st need_def)
  have "result (scan_step s ch) = result s1 @ [ch]"
    unfolding step by simp
  then show "result (scan_step s ch) =
           result s @ map closing_of (takeWhile (\<lambda>u. u \<noteq> opening_of ch) (stack s)) @ [ch]"
    by (simp add: res need_def)
qed

lemma scan_step_other:
  assumes "inString s \<or> (ch \<noteq> RBRACE \<and> ch \<noteq> RBRACK)"
  shows "result (scan_step s ch) = result s @ [ch]"
    and "stack (scan_step s ch) =
           (if \<not> inString s \<and> (ch = LBRACE \<or> ch = LBRACK) then ch # stack s else stack s)"
    and "inString s \<Longrightarrow> lastNonWhitespaceChar (scan_step s ch) = lastNonWhitespaceChar s"
  using assms by (auto simp: scan_step_def Let_def)

text \<open>
  C4. A closing delimiter read outside a string pops every opener above the one it needs
  and emits, before the delimiter itself, the closer that corresponds to each: \<open>}\<close> for a
  popped \<open>{\<close> and \<open>]\<close> for a popped \<open>[\<close>, innermost first. The opener it needs (\<open>{\<close> for \<open>}\<close>,
  \<open>[\<close> for \<open>]\<close>), when the stack has one, is popped too. On the array of the example, whose
  last object is still open when \<open>]\<close> arrives, the object is closed with \<open>}\<close> first; on an
  object closed while an array in it is still open, the array is closed with \<open>]\<close> first.
\<close>

theorem mismatched_closer_recovery:
  \<open>(\<not> inString s \<and> (ch = RBRACE \<or> ch = RBRACK) \<longrightarrow>
      result (scan_step s ch) =
        result s
          @ map (\<lambda>u. if u = LBRACE then RBRACE else RBRACK)
              (takeWhile (\<lambda>u. u \<noteq> (if ch = RBRACE then LBRACE else LBRACK)) (stack s))
          @ [ch] \<and>
      stack (scan_step s ch) =
        drop 1 (dropWhile (\<lambda>u. u \<noteq> (if ch = RBRACE then LBRACE else LBRACK)) (stack s))) \<and>
   fixJSONStructure (js ''[{"start":{"id":"a"}},{"start":{"id":"c"}]'') =
     js ''[{"start":{"id":"a"}},{"start":{"id":"c"}}]'' \<and>
   fixJSONStructure (js ''{"a":[1}'') = js ''{"a":[1]}''\<close>
proof -
  have \<open>fixJSONStructure (js ''[{"start":{"id":"a"}},{"start":{"id":"c"}]'') =
     js ''[{"start":{"id":"a"}},{"start":{"id":"c"}}]''\<close>
    by (simp add: repair_eval)
  moreover have \<open>fixJSONStructure (js ''{"a":[1}'') = js ''{"a":[1]}''\<close>
    by (simp add: repair_eval)
  moreover have "closing_of = (\<lambda>u. if u = LBRACE then RBRACE else RBRACK)"
    and "opening_of ch = (if ch = RBRACE then LBRACE else LBRACK)"
    by (simp_all add: closing_of_def opening_of_def fun_eq_iff)
  ultimately show ?thesis
    using scan_step_closer [of s ch] by simp
qed

theorem mismatched_closer_recovery_witness:
  "scan_step \<lparr>stack = [LBRACE, LBRACE, LBRACK], inString = False, escaped = False,
               result = [LBRACK, LBRACE, LBRACE], lastNonWhitespaceChar = Some LBRACE\<rparr> RBRACK
   = \<lparr>stack = [], inString = False, escaped = False,
       result = [LBRACK, LBRACE, LBRACE, RBRACE, RBRACE, RBRACK],
       lastNonWhitespaceChar = Some RBRACK\<rparr> \<and>
   result (scan_step \<lparr>stack = [LBRACK, LBRACE, LBRACK, LBRACE], inString = False,
               escaped = False, result = [LBRACE, LBRACK, LBRACE, LBRACK],
               lastNonWhitespaceChar = Some LBRACK\<rparr> RBRACE)
   = [LBRACE, LBRACK, LBRACE, LBRACK, RBRACK, RBRACE] \<and>
   stack (scan_step \<lparr>stack = [LBRACK, LBRACE, LBRACK, LBRACE], inString = False,
               escaped = False, result = [LBRACE, LBRACK, LBRACE, LBRACK],
               lastNonWhitespaceChar = Some LBRACK\<rparr> RBRACE)
   = [LBRACK, LBRACE]"
  using mismatched_closer_recovery
    [of "\<lparr>stack = [LBRACE, LBRACE, LBRACK], inString = False, escaped = False,
               result = [LBRACK, LBRACE, LBRACE], lastNonWhitespaceChar = Some LBRACE\<rparr>" RBRACK]
    mismatched_closer_recovery
    [of "\<lparr>stack = [LBRACK, LBRACE, LBRACK, LBRACE], inString = False,
               escaped = False, result = [LBRACE, LBRACK, LBRACE, LBRACK],
               lastNonWhitespaceChar = Some LBRACK\<rparr>" RBRACE]
  by (simp add: repair_eval)

lemma flags_scan_step:
  "(inString (scan_step s ch), escaped (scan_step s ch)) = string_step (inString s, escaped s) ch"
proof (cases "\<not> inString s \<and> (ch = RBRACE \<or> ch = RBRACK)")
  case True
  then show ?thesis
    by (auto simp: scan_step_def Let_def close_unmatched_eq string_step_def)
next
  case False
  then show ?thesis
    by (auto simp: scan_step_def Let_def string_step_def)
qed

lemma flags_of_scan:
  "(inString (foldl scan_step s cs), escaped (foldl scan_step s cs)) =
     foldl string_step (inString s, escaped s) cs"
proof (induction cs arbitrary: s)
  case Nil
  show ?case by simp
next
  case (Cons ch cs)
  from Cons [of "scan_step s ch"] flags_scan_step [of s ch] show ?case by simp
qed

text \<open>
  C5 (as amended). In the scan of \<open>fixJSONStructure\<close>, every character of the scanned text
  that lies inside a string literal (after the quote that opens the literal, up to and
  including the quote that closes it, where a character that follows a backslash inside
  the literal is escaped and closes nothing) is appended to the result as it is, and
  neither the stack nor the last character that is not white space changes: no brace,
  bracket or comma of a literal is read as structure. (The scan reads the text left by
  the deletion of byte-order marks and zero-width characters and by \<open>addMissingCommas\<close>,
  and \<open>stripTrailingCommas\<close> runs on its result; these three do not know about string
  literals, as the counterexample shows.)
\<close>

theorem string_chars_copied_by_scan:
  assumes "in_literal text i"
  shows "result (foldl scan_step scan_init (take (Suc i) text)) =
           result (foldl scan_step scan_init (take i text)) @ [text ! i] \<and>
         stack (foldl scan_step scan_init (take (Suc i) text)) =
           stack (foldl scan_step scan_init (take i text)) \<and>
         lastNonWhitespaceChar (foldl scan_step scan_init (take (Suc i) text)) =
           lastNonWhitespaceChar (foldl scan_step scan_init (take i text))"
proof -
  define s where "s = foldl scan_step scan_init (take i text)"
  from assms have i: "i < length text"
    and lit: "fst (foldl string_step (False, False) (take i text))"
    by (simp_all add: in_literal_def)
  have "(inString s, escaped s) = foldl string_step (False, False) (take i text)"
    unfolding s_def using flags_of_scan [of scan_init "take i text"]
    by (simp add: scan_init_def)
  with lit have ins: "inString s"
    by (metis fst_conv)
  have "take (Suc i) text = take i text @ [text ! i]"
    using i by (rule take_Suc_conv_app_nth)
  then have step: "foldl scan_step scan_init (take (Suc i) text) = scan_step s (text ! i)"
    by (simp add: s_def)
  have "result (scan_step s (text ! i)) = result s @ [text ! i]"
    and "stack (scan_step s (text ! i)) = stack s"
    and "lastNonWhitespaceChar (scan_step s (text ! i)) = lastNonWhitespaceChar s"
    using ins scan_step_other [of s "text ! i"] by simp_all
  then show ?thesis
    unfolding step s_def by simp
qed

theorem string_chars_copied_by_scan_witness:
  "in_literal [LBRACK, QUOTE, 97, BACKSLASH, QUOTE, RBRACE, QUOTE, RBRACK] 5 \<and>
   result (foldl scan_step scan_init [LBRACK, QUOTE, 97, BACKSLASH, QUOTE, RBRACE]) =
     [LBRACK, QUOTE, 97, BACKSLASH, QUOTE, RBRACE] \<and>
   stack (foldl scan_step scan_init [LBRACK, QUOTE, 97, BACKSLASH, QUOTE, RBRACE]) = [LBRACK]"
  using string_chars_copied_by_scan
    [of "[LBRACK, QUOTE, 97, BACKSLASH, QUOTE, RBRACE, QUOTE, RBRACK]" 5]
  by (simp add: in_literal_def string_step_def scan_init_def repair_eval)

theorem string_chars_counterexample:
  \<open>fixJSON JSON_parse (js ''{"a":"x,}"'') = js ''{"a":"x}"}'' \<and>
   fixJSON JSON_parse (js ''["}{"'') = js ''["},{"]'' \<and>
   fixJSON JSON_parse ([LBRACK, QUOTE, 97, 8203, 98, QUOTE]) = js ''["ab"]''\<close>
  by (simp add: span_eval json_eval repair_eval)

section \<open>Bracket counts of the repaired text\<close>

lemma outside_chars_append:
  "outside_chars st (xs @ ys) = outside_chars st xs @ outside_chars (foldl string_step st xs) ys"
  by (induction xs arbitrary: st) auto

lemma outside_chars_subset: "set (outside_chars st xs) \<subseteq> set xs"
proof (induction xs arbitrary: st)
  case Nil
  show ?case by simp
next
  case (Cons a xs)
  from Cons [of "string_step st a"] show ?case by auto
qed

lemma count_outside_chars_absent: "c \<notin> set xs \<Longrightarrow> count_list (outside_chars st xs) c = 0"
  using outside_chars_subset [of st xs] by (auto simp: count_list_0_iff)

lemma quote_free_outside:
  "QUOTE \<notin> set cs \<Longrightarrow> foldl string_step (False, e) cs = (False, e)"
  by (induction cs) (auto simp: string_step_def)

lemma quote_free_outside_chars:
  "QUOTE \<notin> set cs \<Longrightarrow> outside_chars (False, e) cs = cs"
  by (induction cs) (auto simp: string_step_def)

lemma quote_free_inside:
  "QUOTE \<notin> set cs \<Longrightarrow> fst st \<Longrightarrow> fst (foldl string_step st cs)"
  by (induction cs arbitrary: st) (auto simp: string_step_def split: prod.splits)

lemma closing_of_quote_free: "QUOTE \<notin> set (map closing_of xs)"
  by (auto simp: closing_of_def)

lemma flags_agree_step: "flags_agree s \<Longrightarrow> flags_agree (scan_step s ch)"
proof (cases "\<not> inString s \<and> (ch = RBRACE \<or> ch = RBRACK)")
  case True
  assume a: "flags_agree s"
  have "foldl string_step (False, escaped s)
          (map closing_of (takeWhile (\<lambda>u. u \<noteq> opening_of ch) (stack s)) @ [ch]) = (False, escaped s)"
    using True by (intro quote_free_outside) (auto simp: closing_of_def)
  moreover have "string_step (False, escaped s) ch = (False, escaped s)"
    using True by (auto simp: string_step_def)
  ultimately show ?thesis
    using a True flags_scan_step [of s ch] scan_step_closer(1) [of s ch]
    unfolding flags_agree_def by simp
next
  case False
  assume a: "flags_agree s"
  from False have "result (scan_step s ch) = result s @ [ch]"
    by (intro scan_step_other) auto
  then show ?thesis
    using a flags_scan_step [of s ch] unfolding flags_agree_def by simp
qed

lemma openers_only_step: "openers_only s \<Longrightarrow> openers_only (scan_step s ch)"
proof (cases "\<not> inString s \<and> (ch = RBRACE \<or> ch = RBRACK)")
  case True
  assume a: "openers_only s"
  have "set (drop 1 (dropWhile (\<lambda>u. u \<noteq> opening_of ch) (stack s))) \<subseteq> set (stack s)"
    by (meson set_drop_subset set_dropWhileD subsetI subset_trans)
  with a True scan_step_closer(2) [of s ch] show ?thesis
    unfolding openers_only_def by auto
next
  case False
  assume a: "openers_only s"
  from False have "stack (scan_step s ch) =
           (if \<not> inString s \<and> (ch = LBRACE \<or> ch = LBRACK) then ch # stack s else stack s)"
    by (intro scan_step_other) auto
  with a show ?thesis unfolding openers_only_def by auto
qed

lemma count_closing:
  "set xs \<subseteq> {LBRACE, LBRACK} \<Longrightarrow> cl = RBRACE \<or> cl = RBRACK \<Longrightarrow>
     count_list (map closing_of xs) cl = count_list xs (opening_of cl)"
  by (induction xs) (auto simp: closing_of_def opening_of_def)

lemma count_closing_opener:
  "cl = RBRACE \<or> cl = RBRACK \<Longrightarrow> count_list (map closing_of xs) (opening_of cl) = 0"
  by (induction xs) (auto simp: closing_of_def opening_of_def)

lemma count_take_drop_while:
  "count_list xs a = count_list (takeWhile P xs) a + count_list (dropWhile P xs) a"
  by (metis count_list_append takeWhile_dropWhile_id)

lemma count_drop1_dropWhile:
  "int (count_list (drop 1 (dropWhile (\<lambda>u. u \<noteq> need) xs)) a) =
     int (count_list (dropWhile (\<lambda>u. u \<noteq> need) xs) a) - (if a = need \<and> need \<in> set xs then 1 else 0)"
proof (cases "dropWhile (\<lambda>u. u \<noteq> need) xs")
  case Nil
  then have "need \<notin> set xs" by (auto simp: dropWhile_eq_Nil_conv)
  then show ?thesis unfolding Nil by simp
next
  case (Cons y ys)
  then have "y = need" using hd_dropWhile [of "\<lambda>u. u \<noteq> need" xs] by auto
  moreover have "need \<in> set xs"
    using Cons \<open>y = need\<close> by (metis list.set_intros(1) set_dropWhileD)
  ultimately show ?thesis using Cons by simp
qed

lemma excess_step:
  assumes fl: "flags_agree s" and op: "openers_only s" and cl: "cl = RBRACE \<or> cl = RBRACK"
  shows "excess cl (scan_step s ch) =
           excess cl s + (if \<not> inString s \<and> ch = cl \<and> opening_of cl \<notin> set (stack s) then 1 else 0)"
proof (cases "\<not> inString s \<and> (ch = RBRACE \<or> ch = RBRACK)")
  case True
  define tw where "tw = takeWhile (\<lambda>u. u \<noteq> opening_of ch) (stack s)"
  define dw where "dw = dropWhile (\<lambda>u. u \<noteq> opening_of ch) (stack s)"
  have res: "result (scan_step s ch) = result s @ map closing_of tw @ [ch]"
    and st: "stack (scan_step s ch) = drop 1 dw"
    using True scan_step_closer [of s ch] by (simp_all add: tw_def dw_def)
  have state: "foldl string_step (False, False) (result s) = (False, escaped s)"
    using fl True by (simp add: flags_agree_def)
  have "QUOTE \<notin> set (map closing_of tw @ [ch])"
    using True by (auto simp: closing_of_def)
  then have "outside_chars (False, escaped s) (map closing_of tw @ [ch]) = map closing_of tw @ [ch]"
    by (rule quote_free_outside_chars)
  then have out: "outside_chars (False, False) (result (scan_step s ch)) =
      outside_chars (False, False) (result s) @ map closing_of tw @ [ch]"
    by (simp only: res outside_chars_append [of _ "result s"] state)
  have cnt: "count_list (outside_chars (False, False) (result (scan_step s ch))) x =
      count_list (outside_chars (False, False) (result s)) x + count_list (map closing_of tw) x
        + (if x = ch then 1 else 0)" for x
    unfolding out by simp
  have "set tw \<subseteq> set (stack s)"
    unfolding tw_def by (auto dest: set_takeWhileD)
  then have tws: "set tw \<subseteq> {LBRACE, LBRACK}"
    using op unfolding openers_only_def by (rule subset_trans)
  have c1: "count_list (map closing_of tw) cl = count_list tw (opening_of cl)"
    using tws cl by (rule count_closing)
  have c2: "count_list (map closing_of tw) (opening_of cl) = 0"
    using cl by (rule count_closing_opener)
  have c3: "count_list (stack s) (opening_of cl) = count_list tw (opening_of cl) + count_list dw (opening_of cl)"
    unfolding tw_def dw_def by (rule count_take_drop_while)
  have c4: "int (count_list (drop 1 dw) (opening_of cl)) =
      int (count_list dw (opening_of cl)) - (if opening_of cl = opening_of ch \<and> opening_of ch \<in> set (stack s) then 1 else 0)"
    unfolding dw_def by (rule count_drop1_dropWhile)
  have c5: "count_list tw (opening_of ch) = 0"
    unfolding tw_def by (auto simp: count_list_0_iff dest: set_takeWhileD)
  have eq: "opening_of cl = opening_of ch \<longleftrightarrow> cl = ch"
    using cl True by (auto simp: opening_of_def)
  have ne: "ch \<noteq> opening_of cl"
    using cl True by (auto simp: opening_of_def)
  have e1: "excess cl (scan_step s ch) =
      int (count_list (outside_chars (False, False) (result s)) cl) + int (count_list tw (opening_of cl))
        + (if cl = ch then 1 else 0)
        + (int (count_list dw (opening_of cl)) - (if cl = ch \<and> opening_of ch \<in> set (stack s) then 1 else 0))
        - int (count_list (outside_chars (False, False) (result s)) (opening_of cl))"
    unfolding excess_def st cnt c1 c2 c4 eq using ne by simp
  have e2: "excess cl s =
      int (count_list (outside_chars (False, False) (result s)) cl) + int (count_list tw (opening_of cl))
        + int (count_list dw (opening_of cl))
        - int (count_list (outside_chars (False, False) (result s)) (opening_of cl))"
    unfolding excess_def c3 by simp
  show ?thesis
  proof (cases "cl = ch")
    case same: True
    then show ?thesis using True unfolding e1 e2 by simp
  next
    case diff: False
    then show ?thesis using True unfolding e1 e2 by simp
  qed
next
  case False
  have res: "result (scan_step s ch) = result s @ [ch]"
    and st: "stack (scan_step s ch) =
           (if \<not> inString s \<and> (ch = LBRACE \<or> ch = LBRACK) then ch # stack s else stack s)"
    using False scan_step_other [of s ch] by auto
  have state: "foldl string_step (False, False) (result s) = (inString s, escaped s)"
    using fl by (simp add: flags_agree_def)
  have out: "outside_chars (False, False) (result (scan_step s ch)) =
      outside_chars (False, False) (result s) @ (if inString s then [] else [ch])"
    unfolding res by (simp add: outside_chars_append state)
  show ?thesis
    using False cl unfolding excess_def out st
    by (auto simp: opening_of_def)
qed


lemma scan_fold_invariants:
  assumes "flags_agree s" and "openers_only s" and "cl = RBRACE \<or> cl = RBRACK"
  shows "flags_agree (foldl scan_step s cs) \<and> openers_only (foldl scan_step s cs) \<and>
         excess cl (foldl scan_step s cs) = excess cl s + int (unmatched_closers cl s cs)"
  using assms
proof (induction cs arbitrary: s)
  case Nil
  then show ?case by simp
next
  case (Cons ch cs)
  note p = Cons.prems
  have a: "flags_agree (scan_step s ch)" and b: "openers_only (scan_step s ch)"
    using p by (simp_all add: flags_agree_step openers_only_step)
  note ih = Cons.IH [OF a b p(3)]
  note st = excess_step [OF p, of ch]
  from ih st show ?case by simp
qed

lemma scan_init_invariants:
  "flags_agree scan_init" "openers_only scan_init" "excess cl scan_init = 0"
  by (simp_all add: flags_agree_def openers_only_def excess_def scan_init_def)

lemma close_remaining_eq: "close_remaining st res = res @ map closing_of st"
  by (induction st arbitrary: res) simp_all

lemma closer_follows_hd:
  assumes "closer_follows cs"
  obtains x xs where "cs = x # xs" and "x \<noteq> QUOTE" and "x \<noteq> BACKSLASH"
proof (cases cs)
  case Nil
  with assms show ?thesis by (simp add: closer_follows_def)
next
  case (Cons x xs)
  have "x \<noteq> QUOTE \<and> x \<noteq> BACKSLASH"
  proof (cases "is_space x")
    case True
    then show ?thesis by (auto simp: is_space_def)
  next
    case False
    with assms Cons show ?thesis by (auto simp: closer_follows_def)
  qed
  with Cons that show ?thesis by blast
qed

lemma comma_before_closer:
  assumes "closer_follows cs"
  shows "outside_chars (string_step st COMMA) cs = outside_chars st cs"
proof -
  from assms obtain x xs where cs: "cs = x # xs" and x: "x \<noteq> QUOTE" "x \<noteq> BACKSLASH"
    by (rule closer_follows_hd)
  obtain a b where st: "st = (a, b)" by (cases st)
  have "string_step (string_step st COMMA) x = string_step st x"
    and "fst (string_step st COMMA) = fst st"
    using x unfolding st by (auto simp: string_step_def)
  then show ?thesis unfolding cs by simp
qed

lemma strip_keeps_count:
  "c \<noteq> COMMA \<Longrightarrow>
     count_list (outside_chars st (stripTrailingCommas cs)) c = count_list (outside_chars st cs) c"
proof (induction cs arbitrary: st)
  case Nil
  show ?case by simp
next
  case (Cons x xs)
  show ?case
  proof (cases "x = COMMA \<and> closer_follows xs")
    case True
    then have "outside_chars (string_step st COMMA) xs = outside_chars st xs"
      by (simp add: comma_before_closer)
    moreover note Cons.IH [of st]
    ultimately show ?thesis using True Cons.prems by simp
  next
    case False
    moreover note Cons.IH [of "string_step st x"]
    ultimately show ?thesis using Cons.prems by auto
  qed
qed

lemma drop_junk:
  assumes "QUOTE \<notin> set junk" and "\<not> fst (foldl string_step st (res @ junk))"
  shows "\<not> fst (foldl string_step st res)"
    and "x \<notin> set junk \<Longrightarrow>
           count_list (outside_chars st (res @ junk)) x = count_list (outside_chars st res) x"
proof -
  show "\<not> fst (foldl string_step st res)"
    using assms quote_free_inside [of junk "foldl string_step st res"] by auto
  show "count_list (outside_chars st (res @ junk)) x = count_list (outside_chars st res) x"
    if "x \<notin> set junk"
    using that by (simp add: outside_chars_append count_outside_chars_absent)
qed

lemma trimmed_result_junk:
  fixes r :: jsstring
  defines "res \<equiv> (let t = trimEnd r in if t \<noteq> [] \<and> last t = COMMA then butlast t else t)"
  shows "\<exists>junk. r = res @ junk \<and> (\<forall>c\<in>set junk. is_space c \<or> c = COMMA)"
proof -
  define ws where "ws = rev (takeWhile is_space (rev r))"
  have "rev r = takeWhile is_space (rev r) @ dropWhile is_space (rev r)"
    by simp
  then have "rev (rev r) = rev (takeWhile is_space (rev r) @ dropWhile is_space (rev r))"
    by (rule arg_cong)
  then have r: "r = trimEnd r @ ws"
    unfolding trimEnd_def ws_def by (simp only: rev_rev_ident rev_append)
  have ws: "\<forall>c\<in>set ws. is_space c"
    unfolding ws_def by (auto dest: set_takeWhileD)
  show ?thesis
  proof (cases "trimEnd r \<noteq> [] \<and> last (trimEnd r) = COMMA")
    case True
    then have "butlast (trimEnd r) @ [COMMA] = trimEnd r"
      using append_butlast_last_id [of "trimEnd r"] by simp
    moreover have "res = butlast (trimEnd r)"
      using True unfolding res_def Let_def by simp
    ultimately have "res @ (COMMA # ws) = trimEnd r @ ws"
      by simp
    then have "r = res @ (COMMA # ws)"
      using r by simp
    with ws show ?thesis by (intro exI [of _ "COMMA # ws"]) auto
  next
    case False
    then have "res = trimEnd r" unfolding res_def Let_def by auto
    with r ws show ?thesis by (intro exI [of _ ws]) auto
  qed
qed

lemma fixJSONStructure_counts:
  assumes esc: "\<not> ends_in_escape input" and cl: "cl = RBRACE \<or> cl = RBRACK"
  shows "count_outside cl (fixJSONStructure input) =
           count_outside (opening_of cl) (fixJSONStructure input)
             + unmatched_closers cl scan_init (scan_text input)"
proof -
  define s where "s = foldl scan_step scan_init (scan_text input)"
  define r1 where "r1 = (if inString s then result s @ [QUOTE] else result s)"
  define l1 where "l1 = (if inString s then Some QUOTE else lastNonWhitespaceChar s)"
  define res where "res = (if l1 = Some COMMA
                 then (let r = trimEnd r1 in
                       if r \<noteq> [] \<and> last r = COMMA then butlast r else r)
                 else r1)"
  have fx: "fixJSONStructure input = stripTrailingCommas (res @ map closing_of (stack s))"
    unfolding fixJSONStructure_def Let_def res_def r1_def l1_def s_def close_remaining_eq
    by simp
  have inv: "flags_agree s" "openers_only s"
    and ex: "excess cl s = int (unmatched_closers cl scan_init (scan_text input))"
    using scan_fold_invariants [OF scan_init_invariants(1,2) cl, of "scan_text input"]
    unfolding s_def by (simp_all add: scan_init_invariants(3))
  have state: "foldl string_step (False, False) (result s) = (inString s, escaped s)"
    using inv(1) by (simp add: flags_agree_def)
  have noesc: "inString s \<Longrightarrow> \<not> escaped s"
    using esc unfolding ends_in_escape_def s_def Let_def by simp
  have out1: "\<not> fst (foldl string_step (False, False) r1)"
    unfolding r1_def using state noesc by (auto simp: string_step_def)
  have cnt1: "outside_chars (False, False) r1 = outside_chars (False, False) (result s)"
    unfolding r1_def using state by (simp add: outside_chars_append)
  obtain junk where junk: "r1 = res @ junk" "\<forall>c\<in>set junk. is_space c \<or> c = COMMA"
  proof (cases "l1 = Some COMMA")
    case True
    then have "res = (let r = trimEnd r1 in if r \<noteq> [] \<and> last r = COMMA then butlast r else r)"
      unfolding res_def by simp
    with trimmed_result_junk [of r1] that show ?thesis by auto
  next
    case False
    then have "r1 = res @ []" unfolding res_def by simp
    with that show ?thesis by (metis empty_iff empty_set)
  qed
  have nq: "QUOTE \<notin> set junk" and nb: "x \<in> {LBRACE, RBRACE, LBRACK, RBRACK} \<Longrightarrow> x \<notin> set junk" for x
    using junk(2) by (auto simp: is_space_def)
  have out2: "\<not> fst (foldl string_step (False, False) res)"
    using drop_junk(1) [OF nq] out1 unfolding junk(1) by blast
  have cnt2: "count_list (outside_chars (False, False) res) x =
      count_list (outside_chars (False, False) (result s)) x"
    if "x \<in> {LBRACE, RBRACE, LBRACK, RBRACK}" for x
    using drop_junk(2) [OF nq, of "(False, False)" res x] out1 nb [OF that]
    unfolding junk(1) [symmetric] cnt1 by simp
  obtain e where st2: "foldl string_step (False, False) res = (False, e)"
    using out2 by (cases "foldl string_step (False, False) res") auto
  have "QUOTE \<notin> set (map closing_of (stack s))"
    by (auto simp: closing_of_def)
  then have out3: "outside_chars (False, False) (res @ map closing_of (stack s)) =
      outside_chars (False, False) res @ map closing_of (stack s)"
    by (simp add: outside_chars_append st2 quote_free_outside_chars)
  have total: "count_outside x (fixJSONStructure input) =
      count_list (outside_chars (False, False) (result s)) x + count_list (map closing_of (stack s)) x"
    if "x \<in> {LBRACE, RBRACE, LBRACK, RBRACK}" for x
  proof -
    have "x \<noteq> COMMA" using that by auto
    then show ?thesis
      unfolding count_outside_def fx by (simp add: strip_keeps_count out3 cnt2 [OF that])
  qed
  have sub: "set (stack s) \<subseteq> {LBRACE, LBRACK}"
    using inv(2) by (simp add: openers_only_def)
  have a: "count_outside cl (fixJSONStructure input) =
      count_list (outside_chars (False, False) (result s)) cl + count_list (stack s) (opening_of cl)"
    using total [of cl] cl count_closing [OF sub cl] by auto
  have b: "count_outside (opening_of cl) (fixJSONStructure input) =
      count_list (outside_chars (False, False) (result s)) (opening_of cl)"
    using total [of "opening_of cl"] cl count_closing_opener [OF cl, of "stack s"]
    by (auto simp: opening_of_def)
  from ex show ?thesis unfolding a b excess_def by linarith
qed

lemma fixJSON_counts_as_structure:
  assumes "parse (trim S) = None" and "x \<noteq> COMMA"
  shows "count_outside x (fixJSON parse S) = count_outside x (fixJSONStructure (trim S))"
proof (cases "trim S = []")
  case True
  then show ?thesis
    by (simp add: fixJSON_def count_outside_def fixJSONStructure_def scan_text_def
        addMissingCommas_def remove_bom_def remove_zero_width_def scan_init_def trimEnd_def Let_def)
next
  case False
  with assms show ?thesis
    by (simp add: fixJSON_def Let_def count_outside_def strip_keeps_count)
qed

text \<open>
  C3 (as amended). When the trimmed input does not parse and its scan does not end inside
  a string right after a backslash, then outside the string literals of the output of
  \<open>fixJSON\<close> every opener has its closer: the number of \<open>}\<close> is the number of \<open>{\<close> plus
  the number of \<open>}\<close> that the scan read while the stack held no \<open>{\<close>, and likewise for
  \<open>]\<close> and \<open>[\<close>. Such a closer is copied to the output with nothing to match it, so the
  counts are equal exactly when the scan meets none.
\<close>

theorem fixJSON_closers_cover_openers:
  assumes "parse (trim S) = None" and "\<not> ends_in_escape (trim S)"
  shows "count_outside RBRACE (fixJSON parse S) =
           count_outside LBRACE (fixJSON parse S)
             + unmatched_closers RBRACE scan_init (scan_text (trim S)) \<and>
         count_outside RBRACK (fixJSON parse S) =
           count_outside LBRACK (fixJSON parse S)
             + unmatched_closers RBRACK scan_init (scan_text (trim S))"
proof -
  have "count_outside x (fixJSON parse S) = count_outside x (fixJSONStructure (trim S))"
    if "x \<noteq> COMMA" for x
    using assms(1) that by (rule fixJSON_counts_as_structure)
  then show ?thesis
    using fixJSONStructure_counts [OF assms(2), of RBRACE]
      fixJSONStructure_counts [OF assms(2), of RBRACK]
    by (simp add: opening_of_def)
qed

theorem fixJSON_closers_cover_openers_witness:
  \<open>JSON_parse (trim (js ''[{"a": 1}, {"b": 2]]'')) = None \<and>
   \<not> ends_in_escape (trim (js ''[{"a": 1}, {"b": 2]]'')) \<and>
   fixJSON JSON_parse (js ''[{"a": 1}, {"b": 2]]'') = js ''[{"a": 1}, {"b": 2}]]'' \<and>
   unmatched_closers RBRACK scan_init (scan_text (trim (js ''[{"a": 1}, {"b": 2]]''))) = 1 \<and>
   count_outside RBRACK (js ''[{"a": 1}, {"b": 2}]]'') =
     count_outside LBRACK (js ''[{"a": 1}, {"b": 2}]]'') + 1\<close>
proof -
  have t: \<open>trim (js ''[{"a": 1}, {"b": 2]]'') = js ''[{"a": 1}, {"b": 2]]''\<close>
    by (simp add: trim_eval)
  have p: \<open>JSON_parse (trim (js ''[{"a": 1}, {"b": 2]]'')) = None\<close>
    unfolding t by (simp add: json_eval)
  have e: \<open>\<not> ends_in_escape (trim (js ''[{"a": 1}, {"b": 2]]''))\<close>
    unfolding t by (simp add: span_eval repair_eval)
  have f: \<open>fixJSONStructure (js ''[{"a": 1}, {"b": 2]]'') = js ''[{"a": 1}, {"b": 2}]]''\<close>
    by (simp add: repair_eval)
  have p2: \<open>JSON_parse (js ''[{"a": 1}, {"b": 2}]]'') = None\<close>
    by (simp add: json_eval)
  have g: \<open>fixJSON JSON_parse (js ''[{"a": 1}, {"b": 2]]'') = js ''[{"a": 1}, {"b": 2}]]''\<close>
    unfolding fixJSON_def t Let_def f using p [unfolded t] p2 by (simp add: closer_follows_def is_space_def)
  have u: \<open>unmatched_closers RBRACK scan_init (scan_text (trim (js ''[{"a": 1}, {"b": 2]]''))) = 1\<close>
    unfolding t by (simp add: repair_eval)
  from fixJSON_closers_cover_openers [of JSON_parse \<open>js ''[{"a": 1}, {"b": 2]]''\<close>, OF p e]
  show ?thesis using p e u unfolding g by simp
qed

theorem fixJSON_balance_counterexample:
  \<open>fixJSON JSON_parse (js ''}'') = js ''}'' \<and>
   count_outside LBRACE (fixJSON JSON_parse (js ''}'')) = 0 \<and>
   count_outside RBRACE (fixJSON JSON_parse (js ''}'')) = 1\<close>
proof -
  have \<open>fixJSON JSON_parse (js ''}'') = js ''}''\<close>
    by (simp add: span_eval json_eval repair_eval)
  then show ?thesis by (simp add: count_outside_def string_step_def)
qed

text \<open>
  An input outside the theorem: the text ends inside a string right after a backslash. The
  quote that is appended is escaped by that backslash, and the closer appended after it
  lies inside the string that the output leaves open.
\<close>

lemma fixJSON_pending_escape_example:
  \<open>fixJSON JSON_parse (js ''["abc'' @ [BACKSLASH]) = js ''["abc'' @ [BACKSLASH, QUOTE, RBRACK] \<and>
   ends_in_escape (trim (js ''["abc'' @ [BACKSLASH])) \<and>
   count_outside LBRACK (fixJSON JSON_parse (js ''["abc'' @ [BACKSLASH])) = 1 \<and>
   count_outside RBRACK (fixJSON JSON_parse (js ''["abc'' @ [BACKSLASH])) = 0\<close>
proof -
  have \<open>fixJSON JSON_parse (js ''["abc'' @ [BACKSLASH]) = js ''["abc'' @ [BACKSLASH, QUOTE, RBRACK]\<close>
    by (simp add: span_eval json_eval repair_eval)
  moreover have \<open>ends_in_escape (trim (js ''["abc'' @ [BACKSLASH]))\<close>
    by (simp add: span_eval repair_eval)
  ultimately show ?thesis by (simp add: count_outside_def string_step_def)
qed


section \<open>Properties of the extraction\<close>

declare strict_loop.simps [simp del]

lemmas extract_eval = extractJSONArrayStrict_def extractJSON_def strict_loop.simps strict_step_def
  slice_def indexOf_def lastIndexOf_def Let_def

lemma take_Suc_state:
  "i < length cs \<Longrightarrow>
     foldl string_step s0 (take (Suc i) cs) = string_step (foldl string_step s0 (take i cs)) (cs ! i)"
  by (simp add: take_Suc_conv_app_nth)

lemma bracket_depth_Suc:
  "a \<le> b \<Longrightarrow> bracket_depth cs a (Suc b) =
     bracket_depth cs a b + (if opens_at cs b then 1 else 0) - (if closes_at cs b then 1 else 0)"
  by (simp add: bracket_depth_def)

lemma bracket_depth_empty: "bracket_depth cs a a = 0"
  by (simp add: bracket_depth_def)

lemma strict_step_inv:
  assumes inv: "strict_inv cs i st" and i: "i < length cs"
  shows "case strict_step cs i st of
           Inl r \<Rightarrow> (\<exists>a b. complete_array cs a b \<and> r = slice cs (int a) (int b + 1))
         | Inr st' \<Rightarrow> strict_inv cs (Suc i) st'"
proof -
  obtain start depth inStr esc where st: "st = (start, depth, inStr, esc)"
    by (cases st) auto
  define ch where "ch = cs ! i"
  have flags: "foldl string_step (False, False) (take i cs) = (inStr, esc)"
    using inv by (simp add: strict_inv_def st)
  have flags': "foldl string_step (False, False) (take (Suc i) cs) = string_step (inStr, esc) ch"
    using i flags by (simp add: take_Suc_state ch_def)
  have op: "opens_at cs i \<longleftrightarrow> ch = LBRACK \<and> \<not> inStr"
    and cl: "closes_at cs i \<longleftrightarrow> ch = RBRACK \<and> \<not> inStr"
    by (simp_all add: opens_at_def closes_at_def outside_at_def flags ch_def)
  have unstarted: "depth = 0 \<and> (\<forall>k<i. \<not> opens_at cs k)" if "start = - 1"
    using inv that by (simp add: strict_inv_def st)
  have started: "0 \<le> start \<and> nat start < i \<and> opens_at cs (nat start) \<and>
              (\<forall>k<nat start. \<not> opens_at cs k) \<and>
              int depth = bracket_depth cs (nat start) i \<and>
              (\<forall>j. nat start < j \<and> j \<le> i \<longrightarrow> 0 < bracket_depth cs (nat start) j)"
    if "start \<noteq> - 1"
    using inv that by (simp add: strict_inv_def st)
  have pos: "0 < depth" if "start \<noteq> - 1"
  proof -
    from started [OF that] have a: "nat start < i" and b: "int depth = bracket_depth cs (nat start) i"
      and c: "\<forall>j. nat start < j \<and> j \<le> i \<longrightarrow> 0 < bracket_depth cs (nat start) j"
      by blast+
    from c a have "0 < bracket_depth cs (nat start) i" by blast
    with b show ?thesis by simp
  qed
  have keep: "strict_inv cs (Suc i) (start, depth, fl)"
    if "\<not> opens_at cs i" "\<not> closes_at cs i" "string_step (inStr, esc) ch = fl" for fl
  proof (cases "start = - 1")
    case True
    with unstarted that flags' show ?thesis
      by (cases fl) (auto simp: strict_inv_def less_Suc_eq)
  next
    case False
    from started [OF False] have le: "nat start \<le> i" by simp
    have "bracket_depth cs (nat start) (Suc i) = bracket_depth cs (nat start) i"
      using that le by (simp add: bracket_depth_Suc)
    with started [OF False] pos [OF False] False that flags' show ?thesis
      by (cases fl) (auto simp: strict_inv_def le_Suc_eq)
  qed
  show ?thesis
  proof (cases inStr)
    case True
    then have "strict_step cs i st = Inr (start, depth, string_step (inStr, esc) ch)"
      by (auto simp: strict_step_def st Let_def ch_def string_step_def)
    moreover have "strict_inv cs (Suc i) (start, depth, string_step (inStr, esc) ch)"
      using True op cl by (intro keep) auto
    ultimately show ?thesis by simp
  next
    case out: False
    consider (opener) "ch = LBRACK" | (closer) "ch = RBRACK" | (other) "ch \<noteq> LBRACK" "ch \<noteq> RBRACK"
      by blast
    then show ?thesis
    proof cases
      case other
      then have "strict_step cs i st = Inr (start, depth, string_step (inStr, esc) ch)"
        using out by (auto simp: strict_step_def st Let_def ch_def string_step_def)
      moreover have "strict_inv cs (Suc i) (start, depth, string_step (inStr, esc) ch)"
        using other op cl by (intro keep) auto
      ultimately show ?thesis by simp
    next
      case opener
      have fl: "string_step (inStr, esc) ch = (inStr, esc)"
        using out opener by (simp add: string_step_def)
      have step: "strict_step cs i st = Inr (if start = - 1 then int i else start, depth + 1, inStr, esc)"
        using out opener by (simp add: strict_step_def st Let_def ch_def)
      have oi: "opens_at cs i" "\<not> closes_at cs i" using op cl out opener by auto
      show ?thesis
      proof (cases "start = - 1")
        case True
        have "bracket_depth cs i (Suc i) = 1"
          using oi by (simp add: bracket_depth_Suc bracket_depth_empty)
        with unstarted [OF True] oi flags' fl True show ?thesis
          unfolding step by (auto simp: strict_inv_def le_Suc_eq)
      next
        case False
        from started [OF False] have le: "nat start \<le> i" by simp
        have "bracket_depth cs (nat start) (Suc i) = bracket_depth cs (nat start) i + 1"
          using oi le by (simp add: bracket_depth_Suc)
        with started [OF False] oi flags' fl False show ?thesis
          unfolding step by (auto simp: strict_inv_def le_Suc_eq)
      qed
    next
      case closer
      have fl: "string_step (inStr, esc) ch = (inStr, esc)"
        using out closer by (simp add: string_step_def)
      have oi: "\<not> opens_at cs i" "closes_at cs i" using op cl out closer by auto
      show ?thesis
      proof (cases "start = - 1")
        case True
        then have "strict_step cs i st = Inr (start, depth, inStr, esc)"
          using out closer unstarted [OF True] by (simp add: strict_step_def st Let_def ch_def)
        moreover have "strict_inv cs (Suc i) (start, depth, inStr, esc)"
          using unstarted [OF True] True oi flags' fl by (auto simp: strict_inv_def less_Suc_eq)
        ultimately show ?thesis by simp
      next
        case False
        note s = started [OF False]
        from s have le: "nat start \<le> i" by simp
        have bd: "bracket_depth cs (nat start) (Suc i) = int depth - 1"
          using oi le s by (simp add: bracket_depth_Suc)
        show ?thesis
        proof (cases "depth - 1 = 0")
          case True
          then have step: "strict_step cs i st = Inl (slice cs start (int i + 1))"
            using out closer False pos [OF False]
            by (simp add: strict_step_def st Let_def ch_def)
          have "depth = 1" using True pos [OF False] by simp
          then have "bracket_depth cs (nat start) (Suc i) = 0"
            using bd by simp
          moreover have "nat start < i" "opens_at cs (nat start)" "\<forall>k<nat start. \<not> opens_at cs k"
            "\<forall>j. nat start < j \<and> j \<le> i \<longrightarrow> 0 < bracket_depth cs (nat start) j"
            using s by blast+
          ultimately have "complete_array cs (nat start) i"
            using oi(2) i unfolding complete_array_def by blast
          moreover have "slice cs start (int i + 1) = slice cs (int (nat start)) (int i + 1)"
            using s by simp
          ultimately have "\<exists>a b. complete_array cs a b \<and>
              slice cs start (int i + 1) = slice cs (int a) (int b + 1)"
            by blast
          then show ?thesis unfolding step by simp
        next
          case big: False
          then have step: "strict_step cs i st = Inr (start, depth - 1, inStr, esc)"
            using out closer False pos [OF False]
            by (simp add: strict_step_def st Let_def ch_def)
          have "int (depth - 1) = bracket_depth cs (nat start) (Suc i)"
            using bd pos [OF False] by simp
          moreover have "0 < bracket_depth cs (nat start) (Suc i)"
            using bd big pos [OF False] by simp
          moreover have "\<forall>j. nat start < j \<and> j \<le> Suc i \<longrightarrow> 0 < bracket_depth cs (nat start) j"
            using s calculation by (auto simp: le_Suc_eq)
          moreover have "0 \<le> start" "nat start < Suc i" "opens_at cs (nat start)"
            "\<forall>k<nat start. \<not> opens_at cs k"
            using s by auto
          ultimately show ?thesis
            using False flags' fl unfolding step
            by (simp add: strict_inv_def)
        qed
      qed
    qed
  qed
qed

lemma strict_inv_end:
  assumes inv: "strict_inv cs (length cs) st"
  shows "\<not> complete_array cs a b"
proof
  assume ca: "complete_array cs a b"
  obtain start depth inStr esc where st: "st = (start, depth, inStr, esc)"
    by (cases st) auto
  from ca have ab: "a < b" "b < length cs" and oa: "opens_at cs a"
    and first: "\<forall>k<a. \<not> opens_at cs k"
    and zero: "bracket_depth cs a (Suc b) = 0"
    unfolding complete_array_def by blast+
  show False
  proof (cases "start = - 1")
    case True
    with inv have "\<forall>k<length cs. \<not> opens_at cs k"
      by (simp add: strict_inv_def st)
    with ab oa show False by auto
  next
    case False
    with inv have s: "opens_at cs (nat start)" "\<forall>k<nat start. \<not> opens_at cs k"
      and p: "\<forall>j. nat start < j \<and> j \<le> length cs \<longrightarrow> 0 < bracket_depth cs (nat start) j"
      by (simp_all add: strict_inv_def st)
    have "\<not> a < nat start" using s(2) oa by blast
    moreover have "\<not> nat start < a" using first s(1) by blast
    ultimately have "a = nat start" by simp
    with p ab have "0 < bracket_depth cs a (Suc b)" by simp
    with zero show False by simp
  qed
qed

lemma strict_loop_spec:
  "strict_inv cs i st \<Longrightarrow> i \<le> length cs \<Longrightarrow>
     (case strict_loop cs i st of
        Some r \<Rightarrow> (\<exists>a b. complete_array cs a b \<and> r = slice cs (int a) (int b + 1))
      | None \<Rightarrow> \<not> (\<exists>a b. complete_array cs a b))"
proof (induction cs i st rule: strict_loop.induct)
  case (1 cs i st)
  show ?case
  proof (cases "i < length cs")
    case False
    with "1.prems" have "i = length cs" by simp
    with "1.prems" strict_inv_end [of cs st] False show ?thesis
      by (subst strict_loop.simps) simp
  next
    case True
    note step = strict_step_inv [OF "1.prems"(1) True]
    show ?thesis
    proof (cases "strict_step cs i st")
      case (Inl r)
      with step True show ?thesis
        by (subst strict_loop.simps) simp
    next
      case (Inr st')
      with step have "strict_inv cs (Suc i) st'" by simp
      moreover have "Suc i \<le> length cs" using True by simp
      ultimately have "case strict_loop cs (i + 1) st' of
        Some r \<Rightarrow> (\<exists>a b. complete_array cs a b \<and> r = slice cs (int a) (int b + 1))
      | None \<Rightarrow> \<not> (\<exists>a b. complete_array cs a b)"
        using "1.IH" [OF True Inr] by simp
      with True Inr show ?thesis
        by (subst strict_loop.simps) simp
    qed
  qed
qed

lemma strict_inv_init: "strict_inv cs 0 (- 1, 0, False, False)"
  by (simp add: strict_inv_def)

lemma slice_nat:
  assumes "i \<le> length s" and "j < length s"
  shows "slice s (int i) (int j + 1) = take (Suc j - i) (drop i s)"
proof -
  have "nat (int j + 1 - int i) = Suc j - i" by linarith
  moreover have "min (int j + 1) (int (length s)) = int j + 1" using assms by linarith
  moreover have "min (int i) (int (length s)) = int i" using assms by linarith
  ultimately show ?thesis by (simp add: slice_def Let_def)
qed

lemma first_index_takeWhile:
  assumes "first_index s c i"
  shows "length (takeWhile (\<lambda>x. x \<noteq> c) s) = i" and "c \<in> set s"
proof -
  from assms have i: "i < length s" "s ! i = c" "\<forall>k<i. s ! k \<noteq> c"
    unfolding first_index_def by blast+
  show "c \<in> set s" using i by (metis nth_mem)
  have "takeWhile (\<lambda>x. x \<noteq> c) s = take i s"
    using i by (intro takeWhile_eq_take_P_nth) auto
  then show "length (takeWhile (\<lambda>x. x \<noteq> c) s) = i" using i by simp
qed

lemma indexOf_first: "first_index s c i \<Longrightarrow> indexOf s c = int i"
  using first_index_takeWhile [of s c i] by (simp add: indexOf_def)

lemma indexOf_absent: "indexOf s c = - 1 \<longleftrightarrow> c \<notin> set s"
  by (simp add: indexOf_def)

lemma takeWhile_shorter:
  assumes "c \<in> set xs"
  shows "length (takeWhile (\<lambda>x. x \<noteq> c) xs) < length xs"
proof -
  have "dropWhile (\<lambda>x. x \<noteq> c) xs \<noteq> []"
    using assms by (auto simp: dropWhile_eq_Nil_conv)
  moreover have "length (takeWhile (\<lambda>x. x \<noteq> c) xs) + length (dropWhile (\<lambda>x. x \<noteq> c) xs) = length xs"
    by (metis length_append takeWhile_dropWhile_id)
  ultimately show ?thesis by (cases "dropWhile (\<lambda>x. x \<noteq> c) xs") auto
qed

lemma lastIndexOf_absent: "lastIndexOf s c = - 1 \<longleftrightarrow> c \<notin> set s"
  using takeWhile_shorter [of c "rev s"] by (auto simp: lastIndexOf_def)

lemma lastIndexOf_last:
  assumes "last_index s c j"
  shows "lastIndexOf s c = int j"
proof -
  from assms have j: "j < length s" "s ! j = c" "\<forall>k. j < k \<and> k < length s \<longrightarrow> s ! k \<noteq> c"
    unfolding last_index_def by blast+
  have mem: "c \<in> set s" using j by (metis nth_mem)
  define n where "n = length s - 1 - j"
  have n: "n < length (rev s)" using j by (simp add: n_def)
  have "rev s ! n = c" using j by (simp add: rev_nth n_def)
  moreover have "\<forall>k<n. rev s ! k \<noteq> c"
  proof (intro allI impI)
    fix k assume "k < n"
    then have "j < length s - 1 - k" "length s - 1 - k < length s" "k < length s"
      using j by (auto simp: n_def)
    with j(3) have "s ! (length s - 1 - k) \<noteq> c" by blast
    then show "rev s ! k \<noteq> c" using \<open>k < length s\<close> by (simp add: rev_nth)
  qed
  ultimately have "takeWhile (\<lambda>x. x \<noteq> c) (rev s) = take n (rev s)"
    using n by (intro takeWhile_eq_take_P_nth) auto
  then have "length (takeWhile (\<lambda>x. x \<noteq> c) (rev s)) = n" using n by simp
  then show ?thesis using mem j by (simp add: lastIndexOf_def n_def)
qed

lemma extractJSON_array_branch:
  assumes i: "first_index code LBRACK i" and j: "last_index code RBRACK j"
    and before: "LBRACE \<notin> set code \<or> (\<exists>m. first_index code LBRACE m \<and> i < m)"
  shows "extractJSON code = take (Suc j - i) (drop i code)"
proof -
  have ne: "code \<noteq> []" using i by (auto simp: first_index_def)
  have a: "indexOf code LBRACK = int i" using i by (rule indexOf_first)
  have b: "lastIndexOf code RBRACK = int j" using j by (rule lastIndexOf_last)
  have c: "indexOf code LBRACE = - 1 \<or> int i < indexOf code LBRACE"
    using before by (auto simp: indexOf_absent indexOf_first)
  have "extractJSON code = slice code (int i) (int j + 1)"
    using ne a b c by (simp add: extractJSON_def Let_def)
  also have "\<dots> = take (Suc j - i) (drop i code)"
    using i j by (intro slice_nat) (auto simp: first_index_def last_index_def)
  finally show ?thesis .
qed

lemma extractJSON_object_branch:
  assumes no: "\<not> (LBRACK \<in> set code \<and> RBRACK \<in> set code \<and>
        (LBRACE \<notin> set code \<or> (\<exists>i m. first_index code LBRACK i \<and> first_index code LBRACE m \<and> i < m)))"
    and m: "first_index code LBRACE m" and n: "last_index code RBRACE n"
  shows "extractJSON code = take (Suc n - m) (drop m code)"
proof -
  have ne: "code \<noteq> []" using m by (auto simp: first_index_def)
  have a: "indexOf code LBRACE = int m" using m by (rule indexOf_first)
  have b: "lastIndexOf code RBRACE = int n" using n by (rule lastIndexOf_last)
  have mem: "LBRACE \<in> set code" using m by (rule first_index_takeWhile(2))
  have "\<not> (indexOf code LBRACK \<noteq> - 1 \<and> lastIndexOf code RBRACK \<noteq> - 1 \<and>
      (indexOf code LBRACE = - 1 \<or> indexOf code LBRACK < indexOf code LBRACE))"
  proof
    assume h: "indexOf code LBRACK \<noteq> - 1 \<and> lastIndexOf code RBRACK \<noteq> - 1 \<and>
      (indexOf code LBRACE = - 1 \<or> indexOf code LBRACK < indexOf code LBRACE)"
    then have in1: "LBRACK \<in> set code" and in2: "RBRACK \<in> set code"
      by (auto simp: indexOf_absent lastIndexOf_absent)
    define i where "i = length (takeWhile (\<lambda>x. x \<noteq> LBRACK) code)"
    have "i < length code" unfolding i_def using in1 by (rule takeWhile_shorter)
    moreover have "code ! i = LBRACK"
      unfolding i_def using in1 nth_length_takeWhile [of "\<lambda>x. x \<noteq> LBRACK" code]
        takeWhile_shorter [OF in1] by auto
    moreover have "\<forall>k<i. code ! k \<noteq> LBRACK"
      unfolding i_def using nth_mem set_takeWhileD takeWhile_nth
      by (metis (mono_tags, lifting) length_takeWhile_le order_less_le_trans)
    ultimately have fi: "first_index code LBRACK i" by (simp add: first_index_def)
    then have "indexOf code LBRACK = int i" by (rule indexOf_first)
    with h a have "i < m" by simp
    with no in1 in2 fi m show False by blast
  qed
  then have "extractJSON code = slice code (int m) (int n + 1)"
    using ne a b by (auto simp: extractJSON_def Let_def)
  also have "\<dots> = take (Suc n - m) (drop m code)"
    using m n by (intro slice_nat) (auto simp: first_index_def last_index_def)
  finally show ?thesis .
qed

lemma extractJSONArrayStrict_cases:
  assumes "code \<noteq> []"
  shows "(\<exists>start fin. complete_array code start fin \<and>
            extractJSONArrayStrict code = take (Suc fin - start) (drop start code)) \<or>
         (\<not> (\<exists>start fin. complete_array code start fin) \<and>
            extractJSONArrayStrict code = extractJSON code)"
proof (cases "strict_loop code 0 (- 1, 0, False, False)")
  case None
  with strict_loop_spec [OF strict_inv_init, of code] assms show ?thesis
    by (simp add: extractJSONArrayStrict_def)
next
  case (Some r)
  with strict_loop_spec [OF strict_inv_init, of code]
  obtain a b where ab: "complete_array code a b" "r = slice code (int a) (int b + 1)"
    by auto
  from ab(1) have "a \<le> length code" "b < length code"
    by (auto simp: complete_array_def)
  then have "r = take (Suc b - a) (drop a code)"
    unfolding ab(2) by (rule slice_nat)
  with ab(1) Some assms show ?thesis
    by (auto simp: extractJSONArrayStrict_def)
qed

text \<open>
  C7. \<open>extractJSONArrayStrict\<close> returns the first complete top-level array: the text from
  the first \<open>[\<close> outside a string through the \<open>]\<close> outside a string at which the bracket
  depth is back to zero; on the text of the example this is \<open>[1,[2,3],4]\<close>. When the text
  has no such array it returns what \<open>extractJSON\<close> returns: the text from the first \<open>[\<close>
  through the last \<open>]\<close> when both exist and the first \<open>[\<close> comes before the first \<open>{\<close> or
  there is no \<open>{\<close>, and otherwise the text from the first \<open>{\<close> through the last \<open>}\<close> when
  both exist.
\<close>

theorem extractJSONArrayStrict_first_complete_array:
  \<open>extractJSONArrayStrict (js ''prefix text [1,[2,3],4] suffix ]'') = js ''[1,[2,3],4]'' \<and>
   (code \<noteq> [] \<longrightarrow>
      (\<exists>start fin. complete_array code start fin \<and>
            extractJSONArrayStrict code = take (Suc fin - start) (drop start code)) \<or>
      (\<not> (\<exists>start fin. complete_array code start fin) \<and>
            extractJSONArrayStrict code = extractJSON code)) \<and>
   (first_index code LBRACK i \<and> last_index code RBRACK j \<and>
      (LBRACE \<notin> set code \<or> (\<exists>m. first_index code LBRACE m \<and> i < m)) \<longrightarrow>
      extractJSON code = take (Suc j - i) (drop i code)) \<and>
   (\<not> (LBRACK \<in> set code \<and> RBRACK \<in> set code \<and>
        (LBRACE \<notin> set code \<or>
         (\<exists>i m. first_index code LBRACK i \<and> first_index code LBRACE m \<and> i < m))) \<and>
      first_index code LBRACE m \<and> last_index code RBRACE n \<longrightarrow>
      extractJSON code = take (Suc n - m) (drop m code))\<close>
proof -
  have \<open>extractJSONArrayStrict (js ''prefix text [1,[2,3],4] suffix ]'') = js ''[1,[2,3],4]''\<close>
    by (simp add: extract_eval)
  then show ?thesis
    using extractJSONArrayStrict_cases [of code] extractJSON_array_branch [of code i j]
      extractJSON_object_branch [of code m n]
    by blast
qed

theorem extractJSONArrayStrict_first_complete_array_witness:
  \<open>first_index (js ''a[1]]'') LBRACK 1 \<and> last_index (js ''a[1]]'') RBRACK 4 \<and>
   LBRACE \<notin> set (js ''a[1]]'') \<and> extractJSON (js ''a[1]]'') = js ''[1]]'' \<and>
   first_index (js ''a{1}[]'') LBRACE 1 \<and> last_index (js ''a{1}[]'') RBRACE 3 \<and>
   extractJSON (js ''a{1}[]'') = js ''{1}''\<close>
proof -
  have a: \<open>first_index (js ''a[1]]'') LBRACK 1\<close> \<open>last_index (js ''a[1]]'') RBRACK 4\<close>
    \<open>LBRACE \<notin> set (js ''a[1]]'')\<close>
    by (simp_all add: first_index_def last_index_def)
  have b: \<open>first_index (js ''a{1}[]'') LBRACE 1\<close> \<open>last_index (js ''a{1}[]'') RBRACE 3\<close>
    by (auto simp: first_index_def last_index_def nth_Cons')
  have c: \<open>\<not> (LBRACK \<in> set (js ''a{1}[]'') \<and> RBRACK \<in> set (js ''a{1}[]'') \<and>
        (LBRACE \<notin> set (js ''a{1}[]'') \<or>
         (\<exists>i m. first_index (js ''a{1}[]'') LBRACK i \<and> first_index (js ''a{1}[]'') LBRACE m \<and> i < m)))\<close>
  proof -
    have \<open>first_index (js ''a{1}[]'') LBRACK i \<Longrightarrow> i = 4\<close> for i
      using indexOf_first [of \<open>js ''a{1}[]''\<close> LBRACK i] by (simp add: indexOf_def)
    moreover have \<open>first_index (js ''a{1}[]'') LBRACE m \<Longrightarrow> m = 1\<close> for m
      using indexOf_first [of \<open>js ''a{1}[]''\<close> LBRACE m] by (simp add: indexOf_def)
    ultimately show ?thesis by fastforce
  qed
  from extractJSONArrayStrict_first_complete_array [of \<open>js ''a[1]]''\<close> 1 4 0 0] a
  have 1: \<open>extractJSON (js ''a[1]]'') = js ''[1]]''\<close> by simp
  from extractJSONArrayStrict_first_complete_array [of \<open>js ''a{1}[]''\<close> 0 0 1 3] b c
  have 2: \<open>extractJSON (js ''a{1}[]'') = js ''{1}''\<close> by simp
  from a b 1 2 show ?thesis by simp
qed

section \<open>The tag repair on the text of the fourth scenario\<close>

declare tag_loop.simps [simp del] autoCloseAngleBrackets.simps [simp del]

lemmas xml_eval = fixXMLorHTML_def tag_loop.simps autoCloseAngleBrackets.simps Let_def
  startsWith_def endsWith_def first_word_def DEFAULT_VOID_TAGS_def ascii_toLowerCase_def
  ascii_lower_def remove_bom_def remove_zero_width_def trim_eval no_opts_def

text \<open>
  C6. On the text \<open><div><p>Hello</div>\<close> the tag repair returns
  \<open><div><p>Hello</div></p></div>\<close>, not \<open><div><p>Hello</p></div>\<close>: the closing tag
  \<open></div>\<close> is not the top of the stack, so the stack is left as it is and the closers of
  both open tags are appended at the end.
\<close>

theorem fixXMLorHTML_leaves_mismatched_open:
  \<open>fixXMLorHTML ascii_toLowerCase (js ''<div><p>Hello</div>'') no_opts
     = js ''<div><p>Hello</div></p></div>''\<close>
  by (simp add: xml_eval)

section \<open>Properties of the finalization step\<close>

lemmas final_eval = ensureExcalidrawArray_def isArray_def array_field_def inner_array_def
  JSON_stringify2_def quote_def hex_digit_def unicode_escape_def

text \<open>
  C8 (as amended). When the trimmed text is not empty, is not of the form \<open>[\<close> ... \<open>]\<close> (first
  character \<open>[\<close> and last character \<open>]\<close>) and does not parse, \<open>ensureExcalidrawArray\<close> parses
  it again between \<open>[\<close> and \<open>]\<close>, and when that gives an array it returns the array
  pretty-printed. A text of the form \<open>[\<close> ... \<open>]\<close> that does not parse is returned trimmed
  and nothing else is tried; a text of white space only gives the empty string.
\<close>

theorem ensureExcalidrawArray_wraps_fragment:
  "(trim code \<noteq> [] \<and> \<not> (hd (trim code) = LBRACK \<and> last (trim code) = RBRACK) \<and>
      parse (trim code) = None \<and> parse ([LBRACK] @ trim code @ [RBRACK]) = Some arr \<and>
      isArray arr \<longrightarrow>
      ensureExcalidrawArray parse stringify code = stringify arr) \<and>
   (trim code \<noteq> [] \<and> hd (trim code) = LBRACK \<and> last (trim code) = RBRACK \<and>
      parse (trim code) = None \<longrightarrow>
      ensureExcalidrawArray parse stringify code = trim code) \<and>
   (trim code = [] \<longrightarrow> ensureExcalidrawArray parse stringify code = [])"
proof -
  have "code \<noteq> []" if "trim code \<noteq> []"
    using that by (auto simp: trim_def trimStart_def trimEnd_def)
  then show ?thesis
    by (auto simp: ensureExcalidrawArray_def Let_def)
qed

theorem ensureExcalidrawArray_wraps_fragment_witness:
  \<open>ensureExcalidrawArray JSON_parse JSON_stringify2 (js '' {"a":1},{"b":[]} '')
     = JSON_stringify2
         (JArr [JObj [(js ''a'', JNum (js ''1''))], JObj [(js ''b'', JArr [])]]) \<and>
   ensureExcalidrawArray JSON_parse JSON_stringify2 (js '' [1,] '') = js ''[1,]'' \<and>
   ensureExcalidrawArray JSON_parse JSON_stringify2 [32, 10, 32] = []\<close>
proof -
  have t: \<open>trim (js '' {"a":1},{"b":[]} '') = js ''{"a":1},{"b":[]}''\<close>
    by (simp add: trim_eval)
  have 1: \<open>trim (js '' {"a":1},{"b":[]} '') \<noteq> []\<close>
    and 2: \<open>\<not> (hd (trim (js '' {"a":1},{"b":[]} '')) = LBRACK \<and>
             last (trim (js '' {"a":1},{"b":[]} '')) = RBRACK)\<close>
    unfolding t by simp_all
  have 3: \<open>JSON_parse (trim (js '' {"a":1},{"b":[]} '')) = None\<close>
    unfolding t by (simp add: json_eval)
  have 4: \<open>JSON_parse ([LBRACK] @ trim (js '' {"a":1},{"b":[]} '') @ [RBRACK])
      = Some (JArr [JObj [(js ''a'', JNum (js ''1''))], JObj [(js ''b'', JArr [])]])\<close>
    unfolding t by (simp add: json_eval)
  have 5: \<open>isArray (JArr [JObj [(js ''a'', JNum (js ''1''))], JObj [(js ''b'', JArr [])]])\<close>
    by (simp add: isArray_def)
  have u: \<open>trim (js '' [1,] '') = js ''[1,]''\<close>
    by (simp add: trim_eval)
  have 6: \<open>trim (js '' [1,] '') \<noteq> []\<close>
    and 7: \<open>hd (trim (js '' [1,] '')) = LBRACK\<close>
    and 8: \<open>last (trim (js '' [1,] '')) = RBRACK\<close>
    unfolding u by simp_all
  have 9: \<open>JSON_parse (trim (js '' [1,] '')) = None\<close>
    unfolding u by (simp add: json_eval)
  have 10: \<open>trim [32, 10, 32] = []\<close>
    by (simp add: trim_eval)
  note a = ensureExcalidrawArray_wraps_fragment
    [of \<open>js '' {"a":1},{"b":[]} ''\<close> JSON_parse
        \<open>JArr [JObj [(js ''a'', JNum (js ''1''))], JObj [(js ''b'', JArr [])]]\<close> JSON_stringify2]
  note b = ensureExcalidrawArray_wraps_fragment
    [of \<open>js '' [1,] ''\<close> JSON_parse JNull JSON_stringify2]
  note c = ensureExcalidrawArray_wraps_fragment
    [of \<open>[32, 10, 32]\<close> JSON_parse JNull JSON_stringify2]
  from a 1 2 3 4 5 have A: \<open>ensureExcalidrawArray JSON_parse JSON_stringify2 (js '' {"a":1},{"b":[]} '')
     = JSON_stringify2
         (JArr [JObj [(js ''a'', JNum (js ''1''))], JObj [(js ''b'', JArr [])]])\<close>
    by blast
  from b 6 7 8 9 have B: \<open>ensureExcalidrawArray JSON_parse JSON_stringify2 (js '' [1,] '') = trim (js '' [1,] '')\<close>
    by blast
  from c 10 have C: \<open>ensureExcalidrawArray JSON_parse JSON_stringify2 [32, 10, 32] = []\<close>
    by blast
  from A B C show ?thesis
    unfolding u by simp
qed

theorem ensureExcalidrawArray_guard_counterexample:
  \<open>JSON_parse (trim (js ''[1],[2]'')) = None \<and>
   JSON_parse ([LBRACK] @ trim (js ''[1],[2]'') @ [RBRACK])
     = Some (JArr [JArr [JNum (js ''1'')], JArr [JNum (js ''2'')]]) \<and>
   ensureExcalidrawArray JSON_parse JSON_stringify2 (js ''[1],[2]'') = js ''[1],[2]'' \<and>
   JSON_stringify2 (JArr [JArr [JNum (js ''1'')], JArr [JNum (js ''2'')]]) \<noteq> js ''[1],[2]'' \<and>
   JSON_parse (trim (js ''  '')) = None \<and>
   JSON_parse ([LBRACK] @ trim (js ''  '') @ [RBRACK]) = Some (JArr []) \<and>
   ensureExcalidrawArray JSON_parse JSON_stringify2 (js ''  '') = [] \<and>
   JSON_stringify2 (JArr []) = js ''[]''\<close>
proof -
  have a: \<open>JSON_parse (js ''[1],[2]'') = None\<close>
    by (simp add: json_eval)
  have b: \<open>JSON_parse (js ''[[1],[2]]'') = Some (JArr [JArr [JNum (js ''1'')], JArr [JNum (js ''2'')]])\<close>
    by (simp add: json_eval)
  have c: \<open>ensureExcalidrawArray JSON_parse JSON_stringify2 (js ''[1],[2]'') = js ''[1],[2]''\<close>
    by (simp add: ensureExcalidrawArray_def Let_def trim_eval json_eval)
  have d: \<open>JSON_stringify2 (JArr [JArr [JNum (js ''1'')], JArr [JNum (js ''2'')]]) \<noteq> js ''[1],[2]''\<close>
    by (simp add: JSON_stringify2_def)
  have e: \<open>JSON_parse [] = None\<close> \<open>JSON_parse (js ''[]'') = Some (JArr [])\<close>
    by (simp_all add: json_eval)
  have f: \<open>ensureExcalidrawArray JSON_parse JSON_stringify2 (js ''  '') = []\<close>
    by (simp add: ensureExcalidrawArray_def Let_def trim_eval)
  have g: \<open>JSON_stringify2 (JArr []) = js ''[]''\<close>
    by (simp add: JSON_stringify2_def)
  show ?thesis using a b c d e f g by (simp add: trim_eval)
qed

section \<open>Properties of the fence extractor\<close>

lemmas fence_eval = extractCodeFence_def tagged_pattern_def any_fence_def plain_lang_def
  is_alnum_def match_tagged_def match_any_def FENCE_def strip_prefix_def
  startsWith_def startsWith_ci_def ascii_lower_def Let_def trim_eval

lemma dropWhile_keeps: "\<not> P c \<Longrightarrow> c \<in> set xs \<Longrightarrow> c \<in> set (dropWhile P xs)"
  by (induction xs) auto

lemma trim_nonempty:
  assumes "c \<in> set s" and "\<not> is_space c"
  shows "trim s \<noteq> []"
proof -
  have "c \<in> set (dropWhile is_space s)" using assms by (simp add: dropWhile_keeps)
  then have "c \<in> set (rev (dropWhile is_space s))" by simp
  then have "c \<in> set (dropWhile is_space (rev (dropWhile is_space s)))"
    using assms(2) by (simp add: dropWhile_keeps)
  then have "dropWhile is_space (rev (dropWhile is_space s)) \<noteq> []"
    by (metis empty_iff empty_set)
  then show ?thesis by (simp add: trim_def trimStart_def trimEnd_def)
qed

lemma until_fence_hd:
  "until_fence s = Some g \<Longrightarrow> g \<noteq> [] \<Longrightarrow> s \<noteq> [] \<and> hd g = hd s"
  by (cases s) (auto split: if_splits)

lemma first_match_suffix:
  "first_match m code = Some g \<Longrightarrow> \<exists>pre s. code = pre @ s \<and> m s = Some g"
proof (induction code)
  case Nil
  then show ?case by simp
next
  case (Cons c cs)
  show ?case
  proof (cases "m (c # cs)")
    case (Some g')
    with Cons.prems have "m (c # cs) = Some g" by simp
    then show ?thesis by (metis append_Nil)
  next
    case None
    with Cons.prems have "first_match m cs = Some g" by simp
    from Cons.IH [OF this] obtain pre s where "cs = pre @ s" "m s = Some g" by blast
    then have "c # cs = (c # pre) @ s" by simp
    with \<open>m s = Some g\<close> show ?thesis by blast
  qed
qed

lemma fence_has_backtick:
  assumes "strip_prefix FENCE s = Some r"
  shows "BACKTICK \<in> set s"
proof -
  from assms have "take (length FENCE) s = FENCE"
    by (auto simp: strip_prefix_def split: if_splits)
  then have "BACKTICK \<in> set (take (length FENCE) s)" by (simp add: FENCE_def)
  then show ?thesis by (rule in_set_takeD)
qed

lemma tagged_match_backtick:
  assumes "first_match (match_tagged lang) code = Some g"
  shows "BACKTICK \<in> set code"
proof -
  from first_match_suffix [OF assms] obtain pre s
    where c: "code = pre @ s" and m: "match_tagged lang s = Some g" by blast
  from m obtain r where "strip_prefix FENCE s = Some r"
    by (auto simp: match_tagged_def split: option.splits)
  then have "BACKTICK \<in> set s" by (rule fence_has_backtick)
  with c show ?thesis by simp
qed

lemma any_match_group:
  assumes "first_match match_any code = Some g" and "g \<noteq> []"
  shows "trim g \<noteq> []"
proof -
  from first_match_suffix [OF assms(1)] obtain pre s
    where m: "match_any s = Some g" by blast
  then obtain r where u: "until_fence (dropWhile is_space r) = Some g"
    by (auto simp: match_any_def split: option.splits)
  from until_fence_hd [OF u assms(2)]
  have ne: "dropWhile is_space r \<noteq> []" and hd: "hd g = hd (dropWhile is_space r)" by simp_all
  from ne have "\<not> is_space (hd (dropWhile is_space r))" by (rule hd_dropWhile)
  with hd have "\<not> is_space (hd g)" by simp
  moreover have "hd g \<in> set g" using assms(2) by simp
  ultimately show ?thesis by (rule trim_nonempty [rotated])
qed

lemma empty_tagged_falls_through:
  assumes "plain_lang lang" and "first_match (match_tagged lang) code = Some []"
  shows "extractCodeFence regexp code (Some lang) = Inr (any_fence code)"
    and "any_fence code \<noteq> []"
proof -
  have bt: "BACKTICK \<in> set code" using assms(2) by (rule tagged_match_backtick)
  then have ne: "code \<noteq> []" by auto
  from assms(1) have l: "lang \<noteq> []" by (simp add: plain_lang_def)
  show "extractCodeFence regexp code (Some lang) = Inr (any_fence code)"
    using assms ne l by (simp add: extractCodeFence_def tagged_pattern_def)
  have tc: "trim code \<noteq> []"
    using bt by (rule trim_nonempty) (simp add: is_space_def)
  show "any_fence code \<noteq> []"
    unfolding any_fence_def using tc any_match_group [of code]
    by (auto split: option.splits)
qed

lemma dropWhile_all: "list_all P ws \<Longrightarrow> dropWhile P (ws @ xs) = dropWhile P xs"
  by (induction ws) auto

lemma tagged_empty_shape:
  assumes "plain_lang lang" and "list_all is_space ws1" and "list_all is_space ws2"
  shows "first_match (match_tagged lang) (FENCE @ ws1 @ lang @ ws2 @ FENCE @ post) = Some []"
proof -
  from assms(1) obtain l ls where lang: "lang = l # ls" and "is_alnum l"
    by (cases lang) (auto simp: plain_lang_def)
  then have nsp: "\<not> is_space l" by (auto simp: is_alnum_def is_space_def)
  have q: "dropWhile is_space (ws1 @ lang @ ws2 @ FENCE @ post) = lang @ ws2 @ FENCE @ post"
    using assms(2) nsp by (simp add: dropWhile_all lang)
  have r: "dropWhile is_space (ws2 @ FENCE @ post) = FENCE @ post"
    using assms(3) by (simp add: dropWhile_all FENCE_def is_space_def)
  have "match_tagged lang (FENCE @ ws1 @ lang @ ws2 @ FENCE @ post) = Some []"
    unfolding match_tagged_def
    by (simp add: strip_prefix_def q r Let_def startsWith_ci_def) (simp add: FENCE_def startsWith_def)
  then show ?thesis by (simp add: FENCE_def)
qed

lemma tagged_empty_after_prose:
  assumes "plain_lang lang" and "list_all is_space ws1" and "list_all is_space ws2"
    and "BACKTICK \<notin> set pre"
  shows "first_match (match_tagged lang) (pre @ FENCE @ ws1 @ lang @ ws2 @ FENCE @ post) = Some []"
  using assms(4)
proof (induction pre)
  case Nil
  from tagged_empty_shape [OF assms(1-3)] show ?case by simp
next
  case (Cons c pre)
  then have "c \<noteq> BACKTICK" by auto
  then have "match_tagged lang ((c # pre) @ FENCE @ ws1 @ lang @ ws2 @ FENCE @ post) = None"
    by (simp add: match_tagged_def strip_prefix_def FENCE_def)
  with Cons show ?case by simp
qed

text \<open>
  C10. The language tag is a word of ASCII letters and digits. When the first match of
  the tagged pattern has an empty group, which is the case of a fence tagged with the
  language around nothing or white space only, after prose without backticks,
  \<open>extractCodeFence\<close> does not return the empty payload: it goes on to the pattern for any
  fence, and what it returns is not empty. The group of that pattern starts right after
  the backticks, so it can hold the tag itself: the fence \<open>```json```\<close> gives \<open>json\<close>.
\<close>

theorem extractCodeFence_empty_tagged_payload:
  \<open>(plain_lang lang \<and> first_match (match_tagged lang) code = Some [] \<longrightarrow>
      extractCodeFence regexp code (Some lang) =
        Inr (case first_match match_any code of
               Some g \<Rightarrow> if g \<noteq> [] then trim g else trim code
             | None \<Rightarrow> trim code) \<and>
      extractCodeFence regexp code (Some lang) \<noteq> Inr []) \<and>
   (plain_lang lang \<and> list_all is_space ws1 \<and> list_all is_space ws2 \<and> BACKTICK \<notin> set pre \<longrightarrow>
      first_match (match_tagged lang) (pre @ FENCE @ ws1 @ lang @ ws2 @ FENCE @ post) = Some []) \<and>
   extractCodeFence regexp (js ''```json```'') (Some (js ''json'')) = Inr (js ''json'')\<close>
proof -
  have \<open>extractCodeFence regexp (js ''```json```'') (Some (js ''json'')) = Inr (js ''json'')\<close>
    by (simp add: fence_eval)
  moreover have "extractCodeFence regexp code (Some lang) =
        Inr (case first_match match_any code of
               Some g \<Rightarrow> if g \<noteq> [] then trim g else trim code
             | None \<Rightarrow> trim code) \<and>
      extractCodeFence regexp code (Some lang) \<noteq> Inr []"
    if "plain_lang lang" and "first_match (match_tagged lang) code = Some []"
    using empty_tagged_falls_through(1) [OF that, of regexp] empty_tagged_falls_through(2) [OF that]
    by (simp add: any_fence_def)
  ultimately show ?thesis
    using tagged_empty_after_prose [of lang ws1 ws2 pre post]
    by blast
qed

theorem extractCodeFence_empty_tagged_payload_witness:
  \<open>plain_lang (js ''json'') \<and> list_all is_space [32] \<and> list_all is_space [10, 32, 10] \<and>
   BACKTICK \<notin> set (js ''Here: '') \<and>
   first_match (match_tagged (js ''json''))
     (js ''Here: '' @ FENCE @ [32] @ js ''json'' @ [10, 32, 10] @ FENCE @ js '' end'') = Some [] \<and>
   extractCodeFence RegExp_standin
     (js ''Here: '' @ FENCE @ [32] @ js ''json'' @ [10, 32, 10] @ FENCE @ js '' end'')
     (Some (js ''json'')) = Inr (js ''json'')\<close>
proof -
  have a: \<open>plain_lang (js ''json'') \<and> list_all is_space [32] \<and> list_all is_space [10, 32, 10] \<and>
      BACKTICK \<notin> set (js ''Here: '')\<close>
    by (simp add: plain_lang_def is_alnum_def is_space_def)
  note t = extractCodeFence_empty_tagged_payload
    [of \<open>js ''json''\<close>
        \<open>js ''Here: '' @ FENCE @ [32] @ js ''json'' @ [10, 32, 10] @ FENCE @ js '' end''\<close>
        RegExp_standin \<open>[32]\<close> \<open>[10, 32, 10]\<close> \<open>js ''Here: ''\<close> \<open>js '' end''\<close>]
  from t a have b: \<open>first_match (match_tagged (js ''json''))
      (js ''Here: '' @ FENCE @ [32] @ js ''json'' @ [10, 32, 10] @ FENCE @ js '' end'') = Some []\<close>
    by blast
  with t a have \<open>extractCodeFence RegExp_standin
      (js ''Here: '' @ FENCE @ [32] @ js ''json'' @ [10, 32, 10] @ FENCE @ js '' end'')
      (Some (js ''json''))
      = Inr (case first_match match_any
                (js ''Here: '' @ FENCE @ [32] @ js ''json'' @ [10, 32, 10] @ FENCE @ js '' end'') of
           Some g \<Rightarrow> if g \<noteq> [] then trim g
                     else trim (js ''Here: '' @ FENCE @ [32] @ js ''json'' @ [10, 32, 10] @ FENCE @ js '' end'')
         | None \<Rightarrow> trim (js ''Here: '' @ FENCE @ [32] @ js ''json'' @ [10, 32, 10] @ FENCE @ js '' end''))\<close>
    by blast
  also have \<open>\<dots> = Inr (js ''json'')\<close>
    by (simp add: fence_eval)
  finally show ?thesis using a b by simp
qed

section \<open>Properties of the exported steps\<close>

lemma fixJSON_try_caught: "fixJSON_try parse input = Inr (fixJSON (caught parse) input)"
  by (simp add: fixJSON_try_def fixJSON_def returned_def try_catch_def caught_def Let_def
      split: sum.splits)

lemma repairJSON_try_caught: "repairJSON_try parse code = Inr (repairJSON (caught parse) code)"
  by (simp add: repairJSON_try_def repairJSON_def fixJSON_try_caught)

lemma fixXML_try_caught: "fixXML_try lower parse code = Inr (fixXML lower (caught parse) code)"
  by (simp add: fixXML_try_def fixXML_def fixUnclosed_try_def fixUnclosed_def fixJSON_try_caught)

lemma ensureExcalidrawArray_try_caught:
  "ensureExcalidrawArray_try parse stringify code =
     Inr (ensureExcalidrawArray (caught parse) stringify code)"
  by (simp add: ensureExcalidrawArray_try_def ensureExcalidrawArray_def returned_def
      try_catch_def caught_def Let_def split: sum.splits option.splits)

lemmas try_caught = repairJSON_try_caught fixXML_try_caught ensureExcalidrawArray_try_caught

lemma steps_on_empty:
  "cleanBOM [] = []" "extractCodeFence regexp [] lang = Inr []" "unescapeHTML [] = []"
  "extractXML [] = []" "normalizeMxTags [] = []" "extractJSON [] = []"
  "extractJSONArrayStrict [] = []" "repairJSON parse [] = []" "fixXML lower parse [] = []"
  "optimizeArrows hook [] = Inr (JSString [])"
  "ensureExcalidrawArray parse' stringify [] = []"
  by (simp_all add: cleanBOM_def extractCodeFence_def unescapeHTML_def extractXML_def
      normalizeMxTags_def extractJSON_def extractJSONArrayStrict_def repairJSON_def fixXML_def
      optimizeArrows_def ensureExcalidrawArray_def)

lemma exported_guard:
  "exported regexp lower parse stringify hook lang name (NotString v) = Inr (NotString v)"
  "exported regexp lower parse stringify hook lang name (JSString []) = Inr (JSString [])"
  by (cases name; simp add: exported_def as_step_def steps_on_empty try_caught)+

lemma exported_total:
  assumes "name \<noteq> ExtractCodeFence" and "name \<noteq> OptimizeArrows"
  shows "\<exists>out. exported regexp lower parse stringify hook lang name (JSString code)
                  = Inr (JSString out)"
  using assms by (cases name) (simp_all add: exported_def as_step_def try_caught)

lemma extractCodeFence_literal:
  assumes "lang_is_literal lang"
  shows "\<exists>out. extractCodeFence regexp code lang = Inr out"
  using assms
  by (auto simp: extractCodeFence_def lang_is_literal_def tagged_pattern_def
      split: option.splits)

lemma extractCodeFence_engine:
  assumes "l \<noteq> []" and "\<not> plain_lang l" and "code \<noteq> []"
  shows "regexp (pattern_source l) = Inl e \<Longrightarrow> extractCodeFence regexp code (Some l) = Inl e"
    and "regexp (pattern_source l) = Inr p \<Longrightarrow> \<exists>out. extractCodeFence regexp code (Some l) = Inr out"
  using assms
  by (auto simp: extractCodeFence_def tagged_pattern_def split: option.splits)

text \<open>
  C9 (as amended). Each of the eleven exported steps returns a value that is not a string
  as it is, and the empty string as it is. For every string, the nine steps other than
  \<open>extractCodeFence\<close> and \<open>optimizeArrows\<close> return a string and throw nothing: what
  \<open>JSON.parse\<close> throws in them is caught where it is thrown.
  \<open>extractCodeFence\<close> does so when its language is \<open>null\<close>, empty or a word of ASCII letters
  and digits; for any other language and a text that is not empty it throws what the
  constructor \<open>new RegExp\<close> throws when it refuses the pattern built from the language,
  and returns a string when the constructor accepts the pattern. \<open>optimizeArrows\<close> returns
  the text as it is when there is no hook, and else what the hook returns or throws for
  a text that is not empty: it has no \<open>try\<close> of its own.
\<close>

theorem exported_steps_return_strings:
  fixes regexp :: "'e regexp" and hook :: "('e, 'v) hook" and lower parse stringify lang
  defines "step \<equiv> exported regexp lower parse stringify hook lang"
  shows "step name (NotString v) = Inr (NotString v) \<and>
         step name (JSString []) = Inr (JSString []) \<and>
         (name \<noteq> ExtractCodeFence \<and> name \<noteq> OptimizeArrows \<longrightarrow>
            (\<exists>out. step name (JSString code) = Inr (JSString out))) \<and>
         (lang_is_literal lang \<longrightarrow>
            (\<exists>out. step ExtractCodeFence (JSString code) = Inr (JSString out))) \<and>
         (lang = Some l \<and> l \<noteq> [] \<and> \<not> plain_lang l \<and> code \<noteq> [] \<longrightarrow>
            (regexp (pattern_source l) = Inl error \<longrightarrow>
               step ExtractCodeFence (JSString code) = Inl error) \<and>
            (regexp (pattern_source l) = Inr pattern \<longrightarrow>
               (\<exists>out. step ExtractCodeFence (JSString code) = Inr (JSString out)))) \<and>
         (hook = None \<longrightarrow> step OptimizeArrows (JSString code) = Inr (JSString code)) \<and>
         (hook = Some f \<and> code \<noteq> [] \<longrightarrow> step OptimizeArrows (JSString code) = f code)"
proof -
  have fence: "step ExtractCodeFence (JSString code) =
      map_sum id JSString (extractCodeFence regexp code lang)"
    and arrows: "step OptimizeArrows (JSString code) = optimizeArrows hook code"
    by (simp_all add: step_def exported_def as_step_def)
  have 1: "step name (NotString v) = Inr (NotString v)"
    and 2: "step name (JSString []) = Inr (JSString [])"
    unfolding step_def by (rule exported_guard)+
  have 3: "\<exists>out. step name (JSString code) = Inr (JSString out)"
    if "name \<noteq> ExtractCodeFence \<and> name \<noteq> OptimizeArrows"
    unfolding step_def using that by (intro exported_total) simp_all
  have 4: "\<exists>out. step ExtractCodeFence (JSString code) = Inr (JSString out)"
    if "lang_is_literal lang"
    using extractCodeFence_literal [OF that, of regexp code] by (auto simp: fence)
  have 5: "step ExtractCodeFence (JSString code) = Inl error"
    if "lang = Some l \<and> l \<noteq> [] \<and> \<not> plain_lang l \<and> code \<noteq> []"
      and "regexp (pattern_source l) = Inl error"
    using that extractCodeFence_engine(1) [of l code regexp error] by (simp add: fence)
  have 6: "\<exists>out. step ExtractCodeFence (JSString code) = Inr (JSString out)"
    if "lang = Some l \<and> l \<noteq> [] \<and> \<not> plain_lang l \<and> code \<noteq> []"
      and "regexp (pattern_source l) = Inr pattern"
    using that extractCodeFence_engine(2) [of l code regexp pattern] by (auto simp: fence)
  have 7: "step OptimizeArrows (JSString code) = Inr (JSString code)" if "hook = None"
    using that by (simp add: arrows optimizeArrows_def)
  have 8: "step OptimizeArrows (JSString code) = f code" if "hook = Some f \<and> code \<noteq> []"
    using that by (simp add: arrows optimizeArrows_def)
  from 1 2 3 4 5 6 7 8 show ?thesis by blast
qed

theorem exported_steps_return_strings_witness:
  \<open>lang_is_literal (Some (js ''json'')) \<and>
   exported RegExp_standin ascii_toLowerCase JSON_parse_js JSON_stringify2 elements_only_hook
     (Some (js ''json'')) RepairJSON (NotString ()) = Inr (NotString ()) \<and>
   exported RegExp_standin ascii_toLowerCase JSON_parse_js JSON_stringify2 elements_only_hook
     (Some (js ''json'')) RepairJSON (JSString []) = Inr (JSString []) \<and>
   (\<exists>out. exported RegExp_standin ascii_toLowerCase JSON_parse_js JSON_stringify2
            elements_only_hook (Some (js ''json'')) RepairJSON (JSString (js ''[{"a":1}''))
          = Inr (JSString out)) \<and>
   (\<exists>out. exported RegExp_standin ascii_toLowerCase JSON_parse_js JSON_stringify2
            elements_only_hook (Some (js ''json'')) ExtractCodeFence (JSString (js ''[{"a":1}''))
          = Inr (JSString out)) \<and>
   exported RegExp_standin ascii_toLowerCase JSON_parse_js JSON_stringify2
     elements_only_hook (Some (js ''json'')) OptimizeArrows (JSString (js ''[{"a":1}''))
     = Inl SyntaxError \<and>
   \<not> plain_lang (js ''c++'') \<and>
   RegExp_standin (pattern_source (js ''c++'')) = Inl SyntaxError \<and>
   exported RegExp_standin ascii_toLowerCase JSON_parse_js JSON_stringify2
     (None :: (js_error, unit) hook) (Some (js ''c++'')) ExtractCodeFence (JSString (js ''x''))
     = Inl SyntaxError \<and>
   exported RegExp_standin ascii_toLowerCase JSON_parse_js JSON_stringify2
     (None :: (js_error, unit) hook) (Some (js ''c++'')) OptimizeArrows (JSString (js ''x''))
     = Inr (JSString (js ''x'')) \<and>
   \<not> plain_lang (js ''c#'') \<and>
   (\<exists>out. exported RegExp_standin ascii_toLowerCase JSON_parse_js JSON_stringify2
            (None :: (js_error, unit) hook) (Some (js ''c#'')) ExtractCodeFence (JSString (js ''x''))
          = Inr (JSString out))\<close>
proof -
  define keep :: "jsstring \<Rightarrow> js_error + unit jsvalue"
    where "keep = (\<lambda>code. if elements_text JSON_parse code then Inr (JSString code)
                           else Inl SyntaxError)"
  have hook: "elements_only_hook = Some keep"
    by (simp add: elements_only_hook_def keep_def)
  have h1: \<open>lang_is_literal (Some (js ''json''))\<close>
    by (simp add: lang_is_literal_def plain_lang_def is_alnum_def)
  have h3: \<open>keep (js ''[{"a":1}'') = Inl SyntaxError\<close>
    by (simp add: keep_def elements_text_def json_eval)
  have h4: \<open>\<not> plain_lang (js ''c++'')\<close> \<open>\<not> plain_lang (js ''c#'')\<close>
    by (simp_all add: plain_lang_def is_alnum_def)
  have h5: \<open>RegExp_standin (pattern_source (js ''c++'')) = Inl SyntaxError\<close>
    by (simp add: RegExp_standin_def pattern_source_def FENCE_def is_alnum_def)
  have h6: \<open>RegExp_standin (pattern_source (js ''c#'')) = Inr (\<lambda>code. None)\<close>
    by (simp add: RegExp_standin_def pattern_source_def FENCE_def is_alnum_def)
  have x: \<open>js ''x'' \<noteq> []\<close> \<open>js ''c++'' \<noteq> []\<close> \<open>js ''c#'' \<noteq> []\<close> \<open>js ''[{"a":1}'' \<noteq> []\<close>
    by simp_all
  note a = exported_steps_return_strings
    [of RegExp_standin ascii_toLowerCase JSON_parse_js JSON_stringify2 elements_only_hook
        \<open>Some (js ''json'')\<close> RepairJSON "()" \<open>js ''[{"a":1}''\<close> \<open>js ''json''\<close>
        SyntaxError "\<lambda>code. None" keep]
  note b = exported_steps_return_strings
    [of RegExp_standin ascii_toLowerCase JSON_parse_js JSON_stringify2
        "None :: (js_error, unit) hook"
        \<open>Some (js ''c++'')\<close> RepairJSON "()" \<open>js ''x''\<close> \<open>js ''c++''\<close>
        SyntaxError "\<lambda>code. None" keep]
  note c = exported_steps_return_strings
    [of RegExp_standin ascii_toLowerCase JSON_parse_js JSON_stringify2
        "None :: (js_error, unit) hook"
        \<open>Some (js ''c#'')\<close> RepairJSON "()" \<open>js ''x''\<close> \<open>js ''c#''\<close>
        SyntaxError "\<lambda>code. None" keep]
  from a h1 hook h3 x(4) have A:
    \<open>exported RegExp_standin ascii_toLowerCase JSON_parse_js JSON_stringify2 elements_only_hook
       (Some (js ''json'')) RepairJSON (NotString ()) = Inr (NotString ()) \<and>
     exported RegExp_standin ascii_toLowerCase JSON_parse_js JSON_stringify2 elements_only_hook
       (Some (js ''json'')) RepairJSON (JSString []) = Inr (JSString []) \<and>
     (\<exists>out. exported RegExp_standin ascii_toLowerCase JSON_parse_js JSON_stringify2
            elements_only_hook (Some (js ''json'')) RepairJSON (JSString (js ''[{"a":1}''))
          = Inr (JSString out)) \<and>
     (\<exists>out. exported RegExp_standin ascii_toLowerCase JSON_parse_js JSON_stringify2
            elements_only_hook (Some (js ''json'')) ExtractCodeFence (JSString (js ''[{"a":1}''))
          = Inr (JSString out)) \<and>
     exported RegExp_standin ascii_toLowerCase JSON_parse_js JSON_stringify2
       elements_only_hook (Some (js ''json'')) OptimizeArrows (JSString (js ''[{"a":1}''))
       = Inl SyntaxError\<close>
    by simp
  from b h4(1) h5 x have B:
    \<open>exported RegExp_standin ascii_toLowerCase JSON_parse_js JSON_stringify2
       (None :: (js_error, unit) hook) (Some (js ''c++'')) ExtractCodeFence (JSString (js ''x''))
       = Inl SyntaxError \<and>
     exported RegExp_standin ascii_toLowerCase JSON_parse_js JSON_stringify2
       (None :: (js_error, unit) hook) (Some (js ''c++'')) OptimizeArrows (JSString (js ''x''))
       = Inr (JSString (js ''x''))\<close>
    by blast
  from c h4(2) h6 x have C:
    \<open>\<exists>out. exported RegExp_standin ascii_toLowerCase JSON_parse_js JSON_stringify2
            (None :: (js_error, unit) hook) (Some (js ''c#'')) ExtractCodeFence (JSString (js ''x''))
          = Inr (JSString out)\<close>
    by blast
  from h1 h4 h5 A B C show ?thesis
    by blast
qed

text \<open>
  The claim as it stands fails for two of the steps. The tag \<open>c++\<close> makes a pattern with a
  quantifier that has nothing to repeat, which the constructor refuses, so that
  \<open>extractCodeFence\<close> throws on a fence of that language; and \<open>optimizeArrows\<close> throws what
  its hook throws, here on a text that is not JSON, of which the description of the hook
  says nothing.
\<close>

theorem exported_steps_counterexample:
  \<open>exported RegExp_standin ascii_toLowerCase JSON_parse_js JSON_stringify2 elements_only_hook
     (Some (js ''c++'')) ExtractCodeFence (JSString (js ''```c++ int x; ```'')) = Inl SyntaxError \<and>
   hook_keeps_shape JSON_parse elements_only_hook \<and>
   exported RegExp_standin ascii_toLowerCase JSON_parse_js JSON_stringify2 elements_only_hook
     (Some (js ''json'')) OptimizeArrows (JSString (js ''x'')) = Inl SyntaxError\<close>
proof -
  have \<open>extractCodeFence RegExp_standin (js ''```c++ int x; ```'') (Some (js ''c++''))
      = Inl SyntaxError\<close>
    by (simp add: extractCodeFence_def tagged_pattern_def plain_lang_def is_alnum_def
        RegExp_standin_def pattern_source_def FENCE_def)
  moreover have "hook_keeps_shape JSON_parse elements_only_hook"
    by (simp add: hook_keeps_shape_def elements_only_hook_def)
  moreover have \<open>elements_text JSON_parse (js ''x'') = False\<close>
    by (simp add: elements_text_def json_eval)
  ultimately show ?thesis
    by (simp add: exported_def as_step_def optimizeArrows_def elements_only_hook_def)
qed

end
